theory Spec2Isabelle
  imports
    Main
    "HOL-Library.AList"
    "HOL-Library.Char_ord"
    "HOL-Library.List_Lexorder"
begin

section \<open>Python values the module works with\<close>

text \<open>
  The module \<^verbatim>\<open>lib/python/voltcli/utility.py\<close> is Python 2 (it writes
  \<^verbatim>\<open>except (IOError, OSError), e\<close>). Every exception that leaves a function is a
  value of \<open>error\<close>. The function \<^verbatim>\<open>abort(*msgs)\<close> displays its messages with the tag
  ERROR and ends the process with \<^verbatim>\<open>sys.exit(1)\<close>: it is \<open>Abort msgs\<close>.
\<close>

datatype error =
    Abort "string list"
  | NameError string
  | UnboundLocalError string
  | AttributeError string
  | TypeError string
  | KeyError string
  | ValueError string
  | DuplicateSectionError string
  | NoSectionError string
  | MissingSectionHeaderError
  | ParsingError
  | InterpolationSyntaxError string
  | InterpolationMissingOptionError string
  | InterpolationDepthError string
  | RuntimeError string

text \<open>
  A Python \<^verbatim>\<open>dict\<close> from strings to strings is an association list with the keys in
  iteration order; \<open>map_of\<close> is the lookup, \<open>AList.update\<close> the assignment
  \<^verbatim>\<open>d[key] = value\<close> (in place for a key that is present, appended otherwise).
\<close>

type_synonym config_map = "(string \<times> string) list"

definition quote :: "string \<Rightarrow> string" where
  "quote s = CHR 0x22 # s @ [CHR 0x22]"

text \<open>\<^verbatim>\<open>str.lower\<close>: the letters A to Z go to a to z, every other character stays.\<close>

definition lower_char :: "char \<Rightarrow> char" where
  "lower_char c =
     (if 65 \<le> (of_char c :: nat) \<and> (of_char c :: nat) \<le> 90
      then char_of (of_char c + (32 :: nat)) else c)"

definition lower :: "string \<Rightarrow> string" where
  "lower s = map lower_char s"

text \<open>\<^verbatim>\<open>key.split('.', 1)\<close> on a key that holds a dot: the text before the first dot and
  the text after it.\<close>

definition split_section :: "string \<Rightarrow> string" where
  "split_section key = takeWhile (\<lambda>c. c \<noteq> CHR ''.'') key"

definition split_name :: "string \<Rightarrow> string" where
  "split_name key = drop 1 (dropWhile (\<lambda>c. c \<noteq> CHR ''.'') key)"

section \<open>The parser of the standard library\<close>

text \<open>
  \<^verbatim>\<open>ConfigParser.SafeConfigParser\<close> (CPython 2.7) keeps a dictionary of defaults and a
  dictionary of sections, each section a dictionary of options. Option names pass through
  \<^verbatim>\<open>optionxform\<close>, which is \<^verbatim>\<open>str.lower\<close>, whenever one is stored.
\<close>

record parser =
  defaults :: config_map
  sections :: "(string \<times> config_map) list"

definition SafeConfigParser :: parser where
  "SafeConfigParser = \<lparr>defaults = [], sections = []\<rparr>"

definition optionxform :: "string \<Rightarrow> string" where
  "optionxform optionstr = lower optionstr"

text \<open>
  The pattern \<^verbatim>\<open>_interpvar_re = %\(([^)]+)\)s\<close> matched at the start of a text: the
  variable name and the text after the match.
\<close>

definition match_interpvar :: "string \<Rightarrow> (string \<times> string) option" where
  "match_interpvar s =
     (case s of
        a # b # cs \<Rightarrow>
          if a = CHR ''%'' \<and> b = CHR ''(''
          then (let var = takeWhile (\<lambda>c. c \<noteq> CHR '')'') cs;
                    after = dropWhile (\<lambda>c. c \<noteq> CHR '')'') cs
                in if var \<noteq> [] \<and> take 2 after = '')s''
                   then Some (var, drop 2 after) else None)
          else None
      | _ \<Rightarrow> None)"

text \<open>\<^verbatim>\<open>value.replace('%%', '')\<close>.\<close>

fun remove_percent_pairs :: "string \<Rightarrow> string" where
  "remove_percent_pairs (a # b # cs) =
     (if a = CHR ''%'' \<and> b = CHR ''%'' then remove_percent_pairs cs
      else a # remove_percent_pairs (b # cs))"
| "remove_percent_pairs cs = cs"

lemma match_interpvar_shorter:
  "match_interpvar s = Some (var, rest) \<Longrightarrow> length rest < length s"
proof -
  assume m: "match_interpvar s = Some (var, rest)"
  then obtain a b cs where s: "s = a # b # cs"
    by (cases s; cases "tl s") (auto simp: match_interpvar_def)
  from m s have "rest = drop 2 (dropWhile (\<lambda>c. c \<noteq> CHR '')'') cs)"
    by (auto simp: match_interpvar_def Let_def split: if_splits)
  moreover have "length (dropWhile (\<lambda>c. c \<noteq> CHR '')'') cs) \<le> length cs"
    by (rule length_dropWhile_le)
  ultimately show ?thesis using s by simp
qed

text \<open>\<^verbatim>\<open>_interpvar_re.sub('', value)\<close>: every match, found from left to right, is removed.\<close>

function remove_interpvars :: "string \<Rightarrow> string" where
  "remove_interpvars [] = []"
| "remove_interpvars (c # cs) =
     (case match_interpvar (c # cs) of
        Some (var, rest) \<Rightarrow> remove_interpvars rest
      | None \<Rightarrow> c # remove_interpvars cs)"
  by pat_completeness auto
termination
  by (relation "measure length") (auto dest: match_interpvar_shorter)

text \<open>
  \<^verbatim>\<open>add_section\<close>: \<^verbatim>\<open>ValueError\<close> for a section whose lowercased name is
  \<^verbatim>\<open>default\<close>, \<^verbatim>\<open>DuplicateSectionError\<close> for one that exists.
\<close>

definition add_section :: "parser \<Rightarrow> string \<Rightarrow> error + parser" where
  "add_section p section =
     (if lower section = ''default'' then Inl (ValueError section)
      else if map_of (sections p) section \<noteq> None then Inl (DuplicateSectionError section)
      else Inr (p\<lparr>sections := sections p @ [(section, [])]\<rparr>))"

text \<open>
  \<^verbatim>\<open>SafeConfigParser.set\<close>: a value with a percent sign that is neither doubled nor
  part of \<^verbatim>\<open>%(name)s\<close> is a \<^verbatim>\<open>ValueError\<close>; an empty section name or
  \<^verbatim>\<open>DEFAULT\<close> stores into the defaults; a section that does not exist is a
  \<^verbatim>\<open>NoSectionError\<close>.
\<close>

definition parser_set :: "parser \<Rightarrow> string \<Rightarrow> string \<Rightarrow> string \<Rightarrow> error + parser" where
  "parser_set p section name val =
     (if CHR ''%'' \<in> set (remove_interpvars (remove_percent_pairs val))
      then Inl (ValueError val)
      else if section = [] \<or> section = ''DEFAULT''
      then Inr (p\<lparr>defaults := AList.update (optionxform name) val (defaults p)\<rparr>)
      else (case map_of (sections p) section of
              None \<Rightarrow> Inl (NoSectionError section)
            | Some sectdict \<Rightarrow>
                Inr (p\<lparr>sections :=
                  AList.update section (AList.update (optionxform name) val sectdict)
                    (sections p)\<rparr>)))"

text \<open>
  The text of a file, as the line scanner of \<^verbatim>\<open>RawConfigParser._read\<close> sees it:
  \<open>Header s\<close> is a line \<^verbatim>\<open>[s]\<close>, \<open>Option n v\<close> a line \<^verbatim>\<open>n = v\<close> (or
  \<^verbatim>\<open>n: v\<close>) with its continuation lines, the name and the value stripped of the blanks
  around them, and \<open>Junk t\<close> any other line that is neither blank nor a comment. A
  file system maps the path of each readable file to its lines.
\<close>

datatype ini_line = Header string | Option string string | Junk string

type_synonym filesystem = "string \<rightharpoonup> ini_line list"

datatype cursect = NoSection | DefaultSection | Section string

text \<open>
  \<^verbatim>\<open>_read\<close>: a header selects the section of that name, the defaults for
  \<^verbatim>\<open>DEFAULT\<close>, or a new section that starts with the entry \<^verbatim>\<open>__name__\<close>; an option is
  stored in the current section under \<^verbatim>\<open>optionxform\<close> of its name. A line before the
  first header raises \<^verbatim>\<open>MissingSectionHeaderError\<close> at once; any other line that does
  not parse raises \<^verbatim>\<open>ParsingError\<close> once the end of the file is reached (\<open>bad\<close>).
\<close>

fun read_lines :: "ini_line list \<Rightarrow> cursect \<Rightarrow> bool \<Rightarrow> parser \<Rightarrow> error + parser" where
  "read_lines [] cur bad p = (if bad then Inl ParsingError else Inr p)"
| "read_lines (Header s # ls) cur bad p =
     (if map_of (sections p) s \<noteq> None then read_lines ls (Section s) bad p
      else if s = ''DEFAULT'' then read_lines ls DefaultSection bad p
      else read_lines ls (Section s) bad
             (p\<lparr>sections := sections p @ [(s, [(''__name__'', s)])]\<rparr>))"
| "read_lines (Option n v # ls) NoSection bad p = Inl MissingSectionHeaderError"
| "read_lines (Option n v # ls) DefaultSection bad p =
     read_lines ls DefaultSection bad
       (p\<lparr>defaults := AList.update (optionxform n) v (defaults p)\<rparr>)"
| "read_lines (Option n v # ls) (Section s) bad p =
     read_lines ls (Section s) bad
       (p\<lparr>sections := AList.map_entry s (AList.update (optionxform n) v) (sections p)\<rparr>)"
| "read_lines (Junk t # ls) NoSection bad p = Inl MissingSectionHeaderError"
| "read_lines (Junk t # ls) cur bad p = read_lines ls cur True p"

text \<open>\<^verbatim>\<open>parser.read(path)\<close>: a file that cannot be opened is skipped without an error.\<close>

definition parser_read :: "parser \<Rightarrow> filesystem \<Rightarrow> string \<Rightarrow> error + parser" where
  "parser_read p fs path =
     (case fs path of None \<Rightarrow> Inr p | Some ls \<Rightarrow> read_lines ls NoSection False p)"

text \<open>
  \<^verbatim>\<open>SafeConfigParser._interpolate_some\<close>: \<^verbatim>\<open>%%\<close> gives a percent sign,
  \<^verbatim>\<open>%(name)s\<close> the value of the option \<^verbatim>\<open>name\<close>, itself interpolated one level deeper
  when it holds a percent sign; the depth is at most \<^verbatim>\<open>MAX_INTERPOLATION_DEPTH = 10\<close>.
\<close>

function interpolate_some :: "config_map \<Rightarrow> nat \<Rightarrow> string \<Rightarrow> error + string" where
  "interpolate_some m depth rest =
     (if 10 < depth then Inl (InterpolationDepthError rest)
      else (case rest of
              [] \<Rightarrow> Inr []
            | c # cs \<Rightarrow>
                if c \<noteq> CHR ''%''
                then (case interpolate_some m depth cs of
                        Inl e \<Rightarrow> Inl e
                      | Inr out \<Rightarrow> Inr (c # out))
                else if take 1 cs = ''%''
                then (case interpolate_some m depth (drop 1 cs) of
                        Inl e \<Rightarrow> Inl e
                      | Inr out \<Rightarrow> Inr (CHR ''%'' # out))
                else if take 1 cs = ''(''
                then (case match_interpvar rest of
                        None \<Rightarrow> Inl (InterpolationSyntaxError rest)
                      | Some (var, after) \<Rightarrow>
                          (case map_of m (optionxform var) of
                             None \<Rightarrow> Inl (InterpolationMissingOptionError (optionxform var))
                           | Some v \<Rightarrow>
                               (case (if CHR ''%'' \<in> set v
                                      then interpolate_some m (Suc depth) v else Inr v) of
                                  Inl e \<Rightarrow> Inl e
                                | Inr out1 \<Rightarrow>
                                    (case interpolate_some m depth after of
                                       Inl e \<Rightarrow> Inl e
                                     | Inr out2 \<Rightarrow> Inr (out1 @ out2)))))
                else Inl (InterpolationSyntaxError rest)))"
  by pat_completeness auto
termination
  by (relation "inv_image (less_than <*lex*> less_than)
                  (\<lambda>(m, depth, rest). (11 - depth, length rest))")
     (auto dest: match_interpvar_shorter)

definition interpolate :: "config_map \<Rightarrow> string \<Rightarrow> error + string" where
  "interpolate m rawval = interpolate_some m 1 rawval"

text \<open>\<^verbatim>\<open>d.update(other)\<close> on dictionaries.\<close>

definition dict_update :: "config_map \<Rightarrow> config_map \<Rightarrow> config_map" where
  "dict_update d other = fold (\<lambda>(k, v). AList.update k v) other d"

fun interpolate_items :: "config_map \<Rightarrow> config_map \<Rightarrow> error + config_map" where
  "interpolate_items d [] = Inr []"
| "interpolate_items d ((opt, rawval) # rest) =
     (case interpolate d rawval of
        Inl e \<Rightarrow> Inl e
      | Inr val \<Rightarrow>
          (case interpolate_items d rest of
             Inl e \<Rightarrow> Inl e
           | Inr out \<Rightarrow> Inr ((opt, val) # out)))"

text \<open>
  \<^verbatim>\<open>parser.items(section)\<close>: the defaults overridden by the section's options, without
  the entry \<^verbatim>\<open>__name__\<close>, every value interpolated.
\<close>

definition items :: "parser \<Rightarrow> string \<Rightarrow> error + config_map" where
  "items p section =
     (case map_of (sections p) section of
        None \<Rightarrow>
          (if section \<noteq> ''DEFAULT'' then Inl (NoSectionError section)
           else interpolate_items (defaults p)
                  (filter (\<lambda>(opt, v). opt \<noteq> ''__name__'') (defaults p)))
      | Some sectdict \<Rightarrow>
          (let d = dict_update (defaults p) sectdict
           in interpolate_items d (filter (\<lambda>(opt, v). opt \<noteq> ''__name__'') d)))"

section \<open>INIConfigManager\<close>

text \<open>
  \<^verbatim>\<open>load\<close>: every option of every section becomes the entry
  \<^verbatim>\<open>'%s.%s' % (section, name)\<close> of the result.
\<close>

definition load_section :: "string \<Rightarrow> config_map \<Rightarrow> config_map \<Rightarrow> config_map" where
  "load_section section its d =
     fold (\<lambda>(name, val). AList.update (section @ ''.'' @ name) val) its d"

fun load_sections :: "parser \<Rightarrow> string list \<Rightarrow> config_map \<Rightarrow> error + config_map" where
  "load_sections p [] d = Inr d"
| "load_sections p (section # rest) d =
     (case items p section of
        Inl e \<Rightarrow> Inl e
      | Inr its \<Rightarrow> load_sections p rest (load_section section its d))"

definition load :: "filesystem \<Rightarrow> string \<Rightarrow> error + config_map" where
  "load fs path =
     (case parser_read SafeConfigParser fs path of
        Inl e \<Rightarrow> Inl e
      | Inr p \<Rightarrow> load_sections p (map fst (sections p)) [])"

text \<open>
  \<^verbatim>\<open>save\<close>, the loop over the sorted keys. A key without a dot aborts with the message
  \<^verbatim>\<open>Key "%s" must have a section, e.g. "volt.%s"\<close>; any other key opens its section
  when the section changes and sets the option. The loop returns the current section and
  the parser.
\<close>

definition key_message :: "string \<Rightarrow> string" where
  "key_message key =
     ''Key '' @ quote key @ '' must have a section, e.g. '' @ quote (''volt.'' @ key)"

fun save_keys ::
  "config_map \<Rightarrow> string list \<Rightarrow> string option \<Rightarrow> parser \<Rightarrow> error + (string option \<times> parser)"
where
  "save_keys d [] cur_section p = Inr (cur_section, p)"
| "save_keys d (key # keys) cur_section p =
     (if CHR ''.'' \<notin> set key then Inl (Abort [key_message key])
      else (case (if cur_section \<noteq> Some (split_section key)
                  then add_section p (split_section key) else Inr p) of
              Inl e \<Rightarrow> Inl e
            | Inr p1 \<Rightarrow>
                (case map_of d key of
                   None \<Rightarrow> Inl (KeyError key)
                 | Some val \<Rightarrow>
                     (case parser_set p1 (split_section key) (split_name key) val of
                        Inl e \<Rightarrow> Inl e
                      | Inr p2 \<Rightarrow> save_keys d keys (Some (split_section key)) p2))))"

text \<open>
  After the loop \<^verbatim>\<open>save\<close> evaluates \<^verbatim>\<open>FileWriter(path)\<close>. The module binds no name
  \<^verbatim>\<open>FileWriter\<close> (it imports standard modules only and defines the class \<^verbatim>\<open>File\<close>),
  so the call raises \<^verbatim>\<open>NameError\<close>, and \<^verbatim>\<open>parser.write(f)\<close> is not reached: no path
  through \<^verbatim>\<open>save\<close> changes a file. The result is the exception raised, if any, and the
  file system afterwards.
\<close>

definition save :: "filesystem \<Rightarrow> string \<Rightarrow> config_map \<Rightarrow> error option \<times> filesystem" where
  "save fs path d =
     (case save_keys d (sort (map fst d)) None SafeConfigParser of
        Inl e \<Rightarrow> (Some e, fs)
      | Inr (cur_section, p) \<Rightarrow> (Some (NameError ''FileWriter''), fs))"

section \<open>PersistentConfig\<close>

record PersistentConfig =
  permanent_path :: string
  local_path :: string
  permanent :: config_map
  local :: config_map

text \<open>The constructor: the only format it accepts is \<^verbatim>\<open>ini\<close>, in any letter case.\<close>

definition PersistentConfig_init ::
  "filesystem \<Rightarrow> string \<Rightarrow> string \<Rightarrow> string \<Rightarrow> error + PersistentConfig" where
  "PersistentConfig_init fs format ppath lpath =
     (if lower format \<noteq> ''ini''
      then Inl (Abort [''Unsupported configuration format '' @ quote format @ ''.''])
      else (case load fs ppath of
              Inl e \<Rightarrow> Inl e
            | Inr perm \<Rightarrow>
                (case load fs lpath of
                   Inl e \<Rightarrow> Inl e
                 | Inr loc \<Rightarrow>
                     Inr \<lparr>permanent_path = ppath, local_path = lpath,
                          permanent = perm, local = loc\<rparr>)))"

definition save_permanent ::
  "PersistentConfig \<Rightarrow> filesystem \<Rightarrow> error option \<times> filesystem" where
  "save_permanent self fs = save fs (permanent_path self) (permanent self)"

definition save_local ::
  "PersistentConfig \<Rightarrow> filesystem \<Rightarrow> error option \<times> filesystem" where
  "save_local self fs = save fs (local_path self) (local self)"

text \<open>\<^verbatim>\<open>get\<close>: the result is \<open>None\<close> where Python returns \<^verbatim>\<open>None\<close>.\<close>

definition get :: "PersistentConfig \<Rightarrow> string \<Rightarrow> string option" where
  "get self key =
     (case map_of (local self) key of
        Some val \<Rightarrow> Some val
      | None \<Rightarrow> map_of (permanent self) key)"

text \<open>
  The setters assign in memory, then save the tier; the object keeps the assignment
  whatever the save does.
\<close>

definition set_permanent ::
  "PersistentConfig \<Rightarrow> filesystem \<Rightarrow> string \<Rightarrow> string \<Rightarrow>
     error option \<times> PersistentConfig \<times> filesystem" where
  "set_permanent self fs key val =
     (let self1 = self\<lparr>permanent := AList.update key val (permanent self)\<rparr>;
          (r, fs1) = save_permanent self1 fs
      in (r, self1, fs1))"

definition set_local ::
  "PersistentConfig \<Rightarrow> filesystem \<Rightarrow> string \<Rightarrow> string \<Rightarrow>
     error option \<times> PersistentConfig \<times> filesystem" where
  "set_local self fs key val =
     (let self1 = self\<lparr>local := AList.update key val (local self)\<rparr>;
          (r, fs1) = save_local self1 fs
      in (r, self1, fs1))"

text \<open>
  The argument of \<^verbatim>\<open>query\<close>: \<^verbatim>\<open>None\<close>, a string, or the built-in function
  \<^verbatim>\<open>filter\<close>, which is the default the signature \<^verbatim>\<open>query(self, filter = filter)\<close>
  gives it. \<^verbatim>\<open>None\<close> and the empty string are false; \<^verbatim>\<open>key.startswith\<close> of a
  function raises \<^verbatim>\<open>TypeError\<close>.
\<close>

datatype filter_arg = FilterNone | FilterStr string | FilterBuiltin

definition truthy :: "filter_arg \<Rightarrow> bool" where
  "truthy f = (case f of FilterNone \<Rightarrow> False | FilterStr s \<Rightarrow> s \<noteq> [] | FilterBuiltin \<Rightarrow> True)"

definition startswith :: "string \<Rightarrow> filter_arg \<Rightarrow> error + bool" where
  "startswith key f =
     (case f of
        FilterStr s \<Rightarrow> Inr (take (length s) key = s)
      | _ \<Rightarrow> Inl (TypeError ''startswith''))"

text \<open>The first loop of the filtered branch, over the local tier.\<close>

fun query_local :: "filter_arg \<Rightarrow> config_map \<Rightarrow> config_map \<Rightarrow> error + config_map" where
  "query_local f [] results = Inr results"
| "query_local f ((key, val) # rest) results =
     (case startswith key f of
        Inl e \<Rightarrow> Inl e
      | Inr b \<Rightarrow> query_local f rest (if b then AList.update key val results else results))"

text \<open>
  The second loop of the filtered branch, over the permanent tier. Its body assigns to
  \<^verbatim>\<open>self.results[key]\<close>; no code of the class sets an attribute \<^verbatim>\<open>results\<close>, so
  reaching the assignment raises \<^verbatim>\<open>AttributeError\<close>.
\<close>

fun query_permanent :: "filter_arg \<Rightarrow> config_map \<Rightarrow> config_map \<Rightarrow> error + config_map" where
  "query_permanent f [] results = Inr results"
| "query_permanent f ((key, val) # rest) results =
     (if map_of results key \<noteq> None then query_permanent f rest results
      else (case startswith key f of
              Inl e \<Rightarrow> Inl e
            | Inr b \<Rightarrow>
                if b then Inl (AttributeError ''results'')
                else query_permanent f rest results))"

text \<open>The loop of the unfiltered branch, where \<^verbatim>\<open>results\<close> is the local dictionary.\<close>

fun query_all :: "config_map \<Rightarrow> config_map \<Rightarrow> error + config_map" where
  "query_all [] results = Inr results"
| "query_all ((key, val) # rest) results =
     (if map_of results key \<noteq> None then query_all rest results
      else Inl (AttributeError ''results''))"

definition query :: "PersistentConfig \<Rightarrow> filter_arg \<Rightarrow> error + config_map" where
  "query self f =
     (if truthy f
      then (case query_local f (local self) [] of
              Inl e \<Rightarrow> Inl e
            | Inr results \<Rightarrow> query_permanent f (permanent self) results)
      else query_all (permanent self) (local self))"

section \<open>Zipper\<close>

text \<open>The class \<^verbatim>\<open>Global\<close>: the flags every operation reads.\<close>

record global =
  verbose_enabled :: bool
  debug_enabled :: bool
  dryrun_enabled :: bool
  manifest_path :: string

text \<open>
  A compiled regular expression is the predicate its method \<^verbatim>\<open>search\<close> computes.
  \<open>re_literal s\<close> is the pattern that consists of the ordinary characters \<open>s\<close>: it is
  found in every text that holds \<open>s\<close>.
\<close>

type_synonym regex = "string \<Rightarrow> bool"

fun re_literal :: "string \<Rightarrow> regex" where
  "re_literal s [] = (s = [])"
| "re_literal s (c # cs) = (take (length s) (c # cs) = s \<or> re_literal s cs)"

text \<open>
  What the operating system answers: the working directory; for a working directory and a
  path, whether the path is a directory, its \<^verbatim>\<open>os.path.realpath\<close>, and the content of the
  file there (\<open>None\<close> when reading it raises \<^verbatim>\<open>OSError\<close>); for a working directory, the
  triples \<^verbatim>\<open>os.walk('.')\<close> yields; whether a path can be opened for writing; the
  archives on disk, each the list of its entries (name and content); the lines written
  to the console.
\<close>

record world =
  cwd :: string
  isdir :: "string \<Rightarrow> string \<Rightarrow> bool"
  realpath :: "string \<Rightarrow> string \<Rightarrow> string"
  read_file :: "string \<Rightarrow> string \<Rightarrow> string option"
  walk :: "string \<Rightarrow> (string \<times> string list \<times> string list) list"
  writable :: "string \<Rightarrow> bool"
  archives :: "string \<rightharpoonup> (string \<times> string) list"
  console :: "string list"

text \<open>
  A \<^verbatim>\<open>zipfile.ZipFile\<close> open for writing: its path, the entries written so far, and
  whether it has been closed. Writing to a closed one raises \<^verbatim>\<open>RuntimeError\<close>; the
  entries reach the archive on disk when it is closed.
\<close>

record zipfile =
  zip_path :: string
  zip_entries :: "(string \<times> string) list"
  zip_closed :: bool

datatype zip_error = ZipRuntimeError | ZipOSError

definition zip_write :: "world \<Rightarrow> zipfile \<Rightarrow> string \<Rightarrow> string \<Rightarrow> zip_error + zipfile" where
  "zip_write w z filename arcname =
     (if zip_closed z then Inl ZipRuntimeError
      else (case read_file w (cwd w) filename of
              None \<Rightarrow> Inl ZipOSError
            | Some content \<Rightarrow> Inr (z\<lparr>zip_entries := zip_entries z @ [(arcname, content)]\<rparr>)))"

definition zip_writestr :: "zipfile \<Rightarrow> string \<Rightarrow> string \<Rightarrow> zip_error + zipfile" where
  "zip_writestr z arcname content =
     (if zip_closed z then Inl ZipRuntimeError
      else Inr (z\<lparr>zip_entries := zip_entries z @ [(arcname, content)]\<rparr>))"

record Zipper =
  output_zip :: "zipfile option"
  output_path :: "string option"
  manifest :: "string list"
  re_excludes :: "regex list"

definition Zipper_init :: "regex list \<Rightarrow> Zipper" where
  "Zipper_init excludes =
     \<lparr>output_zip = None, output_path = None, manifest = [], re_excludes = excludes\<rparr>"

text \<open>\<^verbatim>\<open>'%s' % self.output_path\<close>.\<close>

definition str_path :: "string option \<Rightarrow> string" where
  "str_path p = (case p of None \<Rightarrow> ''None'' | Some s \<Rightarrow> s)"

text \<open>\<^verbatim>\<open>_debug\<close>: a line on the console when debugging is enabled.\<close>

definition Zipper_debug :: "global \<Rightarrow> Zipper \<Rightarrow> world \<Rightarrow> string \<Rightarrow> world" where
  "Zipper_debug g self w msg =
     (if debug_enabled g
      then w\<lparr>console := console w @ [''   DEBUG: '' @ str_path (output_path self) @ '': '' @ msg]\<rparr>
      else w)"

definition Zipper_abort :: "Zipper \<Rightarrow> string list \<Rightarrow> error" where
  "Zipper_abort self msgs =
     Abort ((''Fatal error writing zip file '' @ quote (str_path (output_path self)) @ ''.'')
            # msgs)"

text \<open>
  \<^verbatim>\<open>_abort\<close> passes its messages to \<^verbatim>\<open>abort\<close> behind a line that names the archive;
  the text of the exception caught, which the callers add last, is not part of \<open>msgs\<close>.
  The result of a method is the exception it raised, if any, the object and the world.
\<close>

type_synonym zresult = "error option \<times> Zipper \<times> world"

definition Zipper_open :: "global \<Rightarrow> Zipper \<Rightarrow> world \<Rightarrow> string \<Rightarrow> zresult" where
  "Zipper_open g self w path =
     (let self1 = self\<lparr>output_path := Some path\<rparr>
      in if \<not> dryrun_enabled g
         then (if writable w path
               then (None,
                     self1\<lparr>output_zip :=
                       Some \<lparr>zip_path = path, zip_entries = [], zip_closed = False\<rparr>\<rparr>,
                     w\<lparr>archives := (archives w)(path \<mapsto> [])\<rparr>)
               else (Some (Zipper_abort self1 [''Failed to open for writing.'']), self1, w))
         else (None, self1, w))"

text \<open>\<^verbatim>\<open>'\n'.join(self.manifest)\<close>.\<close>

fun join_lines :: "string list \<Rightarrow> string" where
  "join_lines [] = []"
| "join_lines [l] = l"
| "join_lines (l # ls) = l @ [CHR 0x0A] @ join_lines ls"

definition Zipper_close :: "global \<Rightarrow> Zipper \<Rightarrow> world \<Rightarrow> zresult" where
  "Zipper_close g self w =
     (case output_zip self of
        None \<Rightarrow> (None, self, w)
      | Some z \<Rightarrow>
          (case zip_writestr z (manifest_path g) (join_lines (manifest self)) of
             Inl ZipOSError \<Rightarrow>
               (Some (Zipper_abort self [''Failed to write '' @ manifest_path g @ ''.'']), self, w)
           | Inl ZipRuntimeError \<Rightarrow> (Some (RuntimeError ''closed''), self, w)
           | Inr z1 \<Rightarrow>
               (None,
                self\<lparr>output_zip := Some (z1\<lparr>zip_closed := True\<rparr>)\<rparr>,
                w\<lparr>archives := (archives w)(zip_path z1 \<mapsto> zip_entries z1)\<rparr>)))"

text \<open>
  The loop of \<^verbatim>\<open>add_file\<close> over the exclusion patterns. The local variable
  \<^verbatim>\<open>path_in_full\<close> is bound in the body of the loop only: it is \<open>None\<close> while it is
  unbound. The result says whether the loop left by \<^verbatim>\<open>break\<close>, and gives the variable.
\<close>

fun add_file_loop ::
  "world \<Rightarrow> regex list \<Rightarrow> string \<Rightarrow> string option \<Rightarrow> bool \<times> string option" where
  "add_file_loop w [] path_in path_in_full = (False, path_in_full)"
| "add_file_loop w (re_exclude # rest) path_in path_in_full =
     (if re_exclude path_in then (True, Some (realpath w (cwd w) path_in))
      else add_file_loop w rest path_in (Some (realpath w (cwd w) path_in)))"

text \<open>
  \<^verbatim>\<open>add_file\<close>: after \<^verbatim>\<open>break\<close> the file is skipped; otherwise the \<^verbatim>\<open>else\<close> branch of
  the loop formats its message from \<^verbatim>\<open>path_in_full\<close>, which raises
  \<^verbatim>\<open>UnboundLocalError\<close> when the loop never ran, then writes the file and appends to the
  manifest when the archive is open.
\<close>

definition add_file :: "global \<Rightarrow> Zipper \<Rightarrow> world \<Rightarrow> string \<Rightarrow> string \<Rightarrow> zresult" where
  "add_file g self w path_in path_out =
     (case add_file_loop w (re_excludes self) path_in None of
        (broke, None) \<Rightarrow> (Some (UnboundLocalError ''path_in_full''), self, w)
      | (True, Some full) \<Rightarrow> (None, self, Zipper_debug g self w (''skip '' @ quote full))
      | (False, Some full) \<Rightarrow>
          (let w1 = Zipper_debug g self w (''add '' @ quote full @ '' as '' @ quote path_out)
           in case output_zip self of
                None \<Rightarrow> (None, self, w1)
              | Some z \<Rightarrow>
                  (case zip_write w1 z path_in path_out of
                     Inl ZipOSError \<Rightarrow>
                       (Some (Zipper_abort self
                          [''Failed to write file '' @ quote ''%s'' @ '' to output zip file ''
                             @ quote ''%s'' @ ''.'', path_out]),
                        self, w1)
                   | Inl ZipRuntimeError \<Rightarrow> (Some (RuntimeError ''closed''), self, w1)
                   | Inr z1 \<Rightarrow>
                       (None,
                        self\<lparr>output_zip := Some z1, manifest := manifest self @ [path_out]\<rparr>,
                        w1))))"

definition add_string :: "global \<Rightarrow> Zipper \<Rightarrow> world \<Rightarrow> string \<Rightarrow> string \<Rightarrow> zresult" where
  "add_string g self w s path_out =
     (let w1 = Zipper_debug g self w (''write string to '' @ quote path_out)
      in case output_zip self of
           None \<Rightarrow> (None, self, w1)
         | Some z \<Rightarrow>
             (case zip_writestr z path_out s of
                Inl ZipOSError \<Rightarrow>
                  (Some (Zipper_abort self
                     [''Failed to write string to file '' @ quote path_out @ ''.'']),
                   self, w1)
              | Inl ZipRuntimeError \<Rightarrow> (Some (RuntimeError ''closed''), self, w1)
              | Inr z1 \<Rightarrow>
                  (None,
                   self\<lparr>output_zip := Some z1, manifest := manifest self @ [path_out]\<rparr>,
                   w1)))"

text \<open>\<^verbatim>\<open>os.path.join\<close> of two parts.\<close>

definition path_join :: "string \<Rightarrow> string \<Rightarrow> string" where
  "path_join a b =
     (if take 1 b = ''/'' then b
      else if a = [] \<or> last a = CHR ''/'' then a @ b
      else a @ ''/'' @ b)"

text \<open>
  \<^verbatim>\<open>add_directory\<close>, the loop over the file names of one directory of the walk and the
  loop over the walk. An exception of \<^verbatim>\<open>add_file\<close> ends both.
\<close>

fun add_filenames ::
  "global \<Rightarrow> string \<Rightarrow> string \<Rightarrow> string list \<Rightarrow> Zipper \<Rightarrow> world \<Rightarrow> zresult" where
  "add_filenames g dst basedir [] self w = (None, self, w)"
| "add_filenames g dst basedir (filename # filenames) self w =
     (case add_file g self w
             (drop 2 (path_join basedir filename))
             (path_join (path_join dst (drop 2 basedir)) filename) of
        (Some e, self1, w1) \<Rightarrow> (Some e, self1, w1)
      | (None, self1, w1) \<Rightarrow> add_filenames g dst basedir filenames self1 w1)"

fun add_walk ::
  "global \<Rightarrow> string \<Rightarrow> (string \<times> string list \<times> string list) list \<Rightarrow> Zipper \<Rightarrow> world
     \<Rightarrow> zresult" where
  "add_walk g dst [] self w = (None, self, w)"
| "add_walk g dst ((basedir, subdirs, filenames) # rest) self w =
     (case add_filenames g dst basedir filenames self w of
        (Some e, self1, w1) \<Rightarrow> (Some e, self1, w1)
      | (None, self1, w1) \<Rightarrow> add_walk g dst rest self1 w1)"

text \<open>
  \<^verbatim>\<open>add_directory\<close> takes the list \<^verbatim>\<open>excludes\<close> and never reads it. It changes to the
  source directory, walks it, and changes back in its \<^verbatim>\<open>finally\<close> clause.
\<close>

definition add_directory ::
  "global \<Rightarrow> Zipper \<Rightarrow> world \<Rightarrow> string \<Rightarrow> string \<Rightarrow> regex list \<Rightarrow> zresult" where
  "add_directory g self w path_in dst excludes =
     (if \<not> isdir w (cwd w) path_in
      then (Some (Zipper_abort self
              [''Zip source directory '' @ quote path_in @ '' does not exist.'']), self, w)
      else (let savedir = cwd w;
                w1 = w\<lparr>cwd := realpath w (cwd w) path_in\<rparr>;
                (r, self2, w2) = add_walk g dst (walk w1 (cwd w1)) self w1
            in (r, self2, w2\<lparr>cwd := savedir\<rparr>)))"

text \<open>A sequence of calls on one archive; an exception ends it.\<close>

datatype zipper_call = AddFile string string | AddString string string

fun run_calls :: "global \<Rightarrow> zipper_call list \<Rightarrow> Zipper \<Rightarrow> world \<Rightarrow> zresult" where
  "run_calls g [] self w = (None, self, w)"
| "run_calls g (AddFile path_in path_out # calls) self w =
     (case add_file g self w path_in path_out of
        (Some e, self1, w1) \<Rightarrow> (Some e, self1, w1)
      | (None, self1, w1) \<Rightarrow> run_calls g calls self1 w1)"
| "run_calls g (AddString s path_out # calls) self w =
     (case add_string g self w s path_out of
        (Some e, self1, w1) \<Rightarrow> (Some e, self1, w1)
      | (None, self1, w1) \<Rightarrow> run_calls g calls self1 w1)"

section \<open>Notions the properties are stated with\<close>

text \<open>The section headers of a file, in the order of the file.\<close>

fun headers :: "ini_line list \<Rightarrow> string list" where
  "headers [] = []"
| "headers (Header s # ls) = s # headers ls"
| "headers (l # ls) = headers ls"

definition file_sections :: "filesystem \<Rightarrow> string \<Rightarrow> string list" where
  "file_sections fs path = (case fs path of None \<Rightarrow> [] | Some ls \<Rightarrow> headers ls)"

text \<open>
  Invariants of the parser while it reads: every option name it holds is in lowercase,
  and every section it holds is one of the headers \<open>H\<close>. A key has the shape
  \<open>section_key\<close> when it is a header, a dot and a lowercase name.
\<close>

definition lower_keys :: "config_map \<Rightarrow> bool" where
  "lower_keys m = (\<forall>n \<in> fst ` set m. lower n = n)"

definition lower_parser :: "string set \<Rightarrow> parser \<Rightarrow> bool" where
  "lower_parser H p = (lower_keys (defaults p) \<and>
     (\<forall>x \<in> set (sections p). fst x \<in> H \<and> lower_keys (snd x)))"

definition section_key :: "string set \<Rightarrow> string \<Rightarrow> bool" where
  "section_key H key = (\<exists>section name. key = section @ ''.'' @ name \<and> lower name = name \<and>
      section \<in> H \<and> (CHR ''.'' \<in> set section \<or> split_name key = name))"

text \<open>
  The keys the parser takes from \<^verbatim>\<open>save\<close> without an exception of its own: the
  section is not \<^verbatim>\<open>DEFAULT\<close> in any letter case, and the value has no percent sign
  outside \<^verbatim>\<open>%%\<close> and \<^verbatim>\<open>%(name)s\<close>.
\<close>

definition parser_accepts :: "config_map \<Rightarrow> string \<Rightarrow> bool" where
  "parser_accepts d key =
     (lower (split_section key) \<noteq> ''default'' \<and>
      (case map_of d key of
         None \<Rightarrow> False
       | Some val \<Rightarrow> CHR ''%'' \<notin> set (remove_interpvars (remove_percent_pairs val))))"

text \<open>
  The text of the \<^verbatim>\<open>ValueError\<close> the parser raises for a key it does not accept: the
  section name when \<^verbatim>\<open>add_section\<close> refuses it, the value when \<^verbatim>\<open>set\<close> refuses it.
\<close>

definition parser_message :: "config_map \<Rightarrow> string \<Rightarrow> string" where
  "parser_message d key =
     (if lower (split_section key) = ''default'' then split_section key
      else (case map_of d key of None \<Rightarrow> [] | Some val \<Rightarrow> val))"

text \<open>
  The merged view of the two tiers, local first; whether a pattern of a list is found in a
  path; and the destinations a sequence of calls is to leave in the manifest: those of
  the files no pattern excludes and of all strings.
\<close>

definition merged :: "PersistentConfig \<Rightarrow> string \<Rightarrow> string option" where
  "merged self key =
     (case map_of (local self) key of Some val \<Rightarrow> Some val | None \<Rightarrow> map_of (permanent self) key)"

definition excluded :: "regex list \<Rightarrow> string \<Rightarrow> bool" where
  "excluded res path = list_ex (\<lambda>re_exclude. re_exclude path) res"

fun destinations :: "regex list \<Rightarrow> zipper_call list \<Rightarrow> string list" where
  "destinations res [] = []"
| "destinations res (AddFile path_in path_out # calls) =
     (if excluded res path_in then destinations res calls
      else path_out # destinations res calls)"
| "destinations res (AddString s path_out # calls) = path_out # destinations res calls"

section \<open>Concrete inputs\<close>

text \<open>
  The example of the specification: the permanent file sets \<^verbatim>\<open>volt.port\<close> to 21212, the
  local file overrides it with 21311; \<open>cfg1\<close> has one more permanent key.
\<close>

definition fs0 :: filesystem where
  "fs0 = [''perm.cfg'' \<mapsto> [Header ''volt'', Option ''port'' ''21212''],
          ''local.cfg'' \<mapsto> [Header ''volt'', Option ''port'' ''21311'']]"

text \<open>
  A file whose option is written \<^verbatim>\<open>Host\<close>, and a file whose section is named
  \<^verbatim>\<open>Volt.DB\<close>.
\<close>

definition fs1 :: filesystem where
  "fs1 = [''perm.cfg'' \<mapsto> [Header ''volt'', Option ''Host'' ''node1'']]"

definition fs2 :: filesystem where
  "fs2 = [''perm.cfg'' \<mapsto> [Header ''Volt.DB'', Option ''Port'' ''21212'']]"

text \<open>
  A map whose second key in sorted order has no dot; and a map where the key sorted before
  the one without a dot names the section \<^verbatim>\<open>DEFAULT\<close>.
\<close>

definition map_two :: config_map where
  "map_two = [(''zone'', ''east''), (''volt.port'', ''21212'')]"

definition map_default :: config_map where
  "map_default = [(''DEFAULT.x'', ''1''), (''nodot'', ''2'')]"

text \<open>A map where the key sorted before the one without a dot has a stray percent sign.\<close>

definition map_percent :: config_map where
  "map_percent = [(''zone'', ''east''), (''volt.load'', ''50%'')]"

definition cfg0 :: PersistentConfig where
  "cfg0 = \<lparr>permanent_path = ''perm.cfg'', local_path = ''local.cfg'',
            permanent = [(''volt.port'', ''21212'')],
            local = [(''volt.port'', ''21311'')]\<rparr>"

definition cfg1 :: PersistentConfig where
  "cfg1 = \<lparr>permanent_path = ''perm.cfg'', local_path = ''local.cfg'',
            permanent = [(''volt.port'', ''21212''), (''volt.host'', ''node1'')],
            local = [(''volt.port'', ''21311'')]\<rparr>"

text \<open>
  No flag set; and a world whose working directory is \<^verbatim>\<open>/home\<close>, where \<^verbatim>\<open>src\<close> is a
  directory that holds the one file \<^verbatim>\<open>secret.txt\<close>, every file reads as \<^verbatim>\<open>data\<close>, and
  no archive exists.
\<close>

definition global0 :: global where
  "global0 = \<lparr>verbose_enabled = False, debug_enabled = False, dryrun_enabled = False,
               manifest_path = ''MANIFEST''\<rparr>"

definition world0 :: world where
  "world0 = \<lparr>cwd = ''/home'', isdir = (\<lambda>d p. p = ''src''),
              realpath = (\<lambda>d p. path_join d p),
              read_file = (\<lambda>d p. Some ''data''),
              walk = (\<lambda>d. [(''.'', [], [''secret.txt''])]),
              writable = (\<lambda>p. True), archives = Map.empty, console = []\<rparr>"

text \<open>The same flags with the dry run enabled; and two calls, a file and a string.\<close>

definition global_dry :: global where
  "global_dry = global0\<lparr>dryrun_enabled := True\<rparr>"

definition calls0 :: "zipper_call list" where
  "calls0 = [AddFile ''a.txt'' ''a.txt'', AddString ''hello'' ''b.txt'']"


section \<open>Properties of PersistentConfig and INIConfigManager\<close>

lemma save_writes_nothing: "snd (save fs path d) = fs"
  by (simp add: save_def split: sum.splits prod.splits)

lemma save_raises: "fst (save fs path d) \<noteq> None"
  by (simp add: save_def split: sum.splits prod.splits)

text \<open>
  C3. \<^verbatim>\<open>get(key)\<close> returns the local value of a key the local tier holds, whether or
  not the permanent tier holds it too; the permanent value of a key that only the
  permanent tier holds; and \<^verbatim>\<open>None\<close> for a key in neither tier.
\<close>

theorem get_merge_precedence:
  "(\<forall>v. map_of (local self) key = Some v \<longrightarrow> get self key = Some v) \<and>
   (\<forall>v. map_of (local self) key = None \<and> map_of (permanent self) key = Some v
        \<longrightarrow> get self key = Some v) \<and>
   (map_of (local self) key = None \<and> map_of (permanent self) key = None
        \<longrightarrow> get self key = None)"
  by (simp add: get_def)

theorem get_merge_precedence_witness:
  "get cfg1 ''volt.port'' = Some ''21311'' \<and> get cfg1 ''volt.host'' = Some ''node1'' \<and>
   get cfg1 ''volt.name'' = None"
  using get_merge_precedence [of cfg1 "''volt.port''"]
        get_merge_precedence [of cfg1 "''volt.host''"]
        get_merge_precedence [of cfg1 "''volt.name''"]
  by (simp add: cfg1_def)

text \<open>
  C1. \<^verbatim>\<open>query(filterPrefix)\<close> is to return the merged entries whose keys start with
  the prefix, and \<^verbatim>\<open>query(None)\<close> all merged entries. With \<^verbatim>\<open>volt.host\<close> in the
  permanent tier only, both calls reach the assignment to \<^verbatim>\<open>self.results\<close> and raise
  \<^verbatim>\<open>AttributeError\<close> where the merged map holds \<^verbatim>\<open>volt.host\<close>.
\<close>

theorem query_permanent_only_raises:
  "query cfg1 (FilterStr ''volt.'') = Inl (AttributeError ''results'') \<and>
   query cfg1 FilterNone = Inl (AttributeError ''results'')"
  by (simp add: query_def cfg1_def truthy_def startswith_def)

text \<open>
  Where \<^verbatim>\<open>query\<close> does return, it returns the merged view: the defect shows exactly
  when the permanent tier holds a key (with the prefix) that the local tier lacks.
\<close>

lemma query_all_Inr:
  "query_all perm results = Inr r \<longleftrightarrow>
   r = results \<and> (\<forall>key \<in> fst ` set perm. map_of results key \<noteq> None)"
  by (induction perm) (auto split: if_splits)

lemma query_permanent_Inr:
  "query_permanent (FilterStr s) perm results = Inr r \<longleftrightarrow>
   r = results \<and>
   (\<forall>key \<in> fst ` set perm. map_of results key \<noteq> None \<or> take (length s) key \<noteq> s)"
  by (induction perm) (auto simp: startswith_def split: if_splits)

lemma query_local_Inr:
  "distinct (map fst loc) \<Longrightarrow>
   \<exists>r. query_local (FilterStr s) loc results = Inr r \<and>
       map_of r = (\<lambda>key. if take (length s) key = s
                          then (case map_of loc key of Some val \<Rightarrow> Some val
                                | None \<Rightarrow> map_of results key)
                          else map_of results key)"
proof (induction loc arbitrary: results)
  case Nil
  show ?case by (intro exI [of _ results]) (simp add: fun_eq_iff)
next
  case (Cons x loc)
  obtain k v where x: "x = (k, v)" by (cases x)
  from Cons.prems x have d: "distinct (map fst loc)" and nk: "map_of loc k = None"
    by (auto simp: map_of_eq_None_iff)
  let ?res = "if take (length s) k = s then AList.update k v results else results"
  from Cons.IH [OF d, of ?res] obtain r where
    r: "query_local (FilterStr s) loc ?res = Inr r"
    and m: "map_of r = (\<lambda>key. if take (length s) key = s
                          then (case map_of loc key of Some val \<Rightarrow> Some val
                                | None \<Rightarrow> map_of ?res key)
                          else map_of ?res key)"
    by (elim exE conjE)
  have "query_local (FilterStr s) (x # loc) results = Inr r"
    using r x by (simp add: startswith_def)
  moreover have "map_of r = (\<lambda>key. if take (length s) key = s
                          then (case map_of (x # loc) key of Some val \<Rightarrow> Some val
                                | None \<Rightarrow> map_of results key)
                          else map_of results key)"
    unfolding m x using nk by (auto simp: fun_eq_iff update_conv' split: option.splits)
  ultimately show ?case by (intro exI conjI)
qed

lemma query_filtered:
  assumes "query self (FilterStr s) = Inr r" "s \<noteq> []" "distinct (map fst (local self))"
  shows "map_of r = (\<lambda>key. if take (length s) key = s then merged self key else None)"
proof -
  from query_local_Inr [OF assms(3), of s "[]"] obtain r0 where
    r0: "query_local (FilterStr s) (local self) [] = Inr r0"
    and m0: "map_of r0 = (\<lambda>key. if take (length s) key = s
                          then (case map_of (local self) key of Some val \<Rightarrow> Some val
                                | None \<Rightarrow> map_of [] key)
                          else map_of [] key)"
    by (elim exE conjE)
  from assms(1,2) r0 have "query_permanent (FilterStr s) (permanent self) r0 = Inr r"
    by (simp add: query_def truthy_def)
  then have rr: "r = r0"
    and p: "\<forall>key \<in> fst ` set (permanent self). map_of r0 key \<noteq> None \<or> take (length s) key \<noteq> s"
    by (simp_all add: query_permanent_Inr)
  show ?thesis
  proof
    fix key
    show "map_of r key = (if take (length s) key = s then merged self key else None)"
    proof (cases "take (length s) key = s")
      case False
      then show ?thesis by (simp add: rr m0)
    next
      case True
      show ?thesis
      proof (cases "map_of (local self) key")
        case (Some v)
        with True show ?thesis by (simp add: rr m0 merged_def)
      next
        case None
        with True have n0: "map_of r0 key = None" by (simp add: m0)
        with p True have "key \<notin> fst ` set (permanent self)" by blast
        then have "map_of (permanent self) key = None" by (simp add: map_of_eq_None_iff)
        with None True n0 show ?thesis by (simp add: rr merged_def)
      qed
    qed
  qed
qed

lemma query_unfiltered:
  assumes "query self FilterNone = Inr r"
  shows "map_of r = merged self"
proof -
  from assms have "query_all (permanent self) (local self) = Inr r"
    by (simp add: query_def truthy_def)
  then have rr: "r = local self"
    and p: "\<forall>key \<in> fst ` set (permanent self). map_of (local self) key \<noteq> None"
    by (simp_all add: query_all_Inr)
  show ?thesis
  proof
    fix key
    show "map_of r key = merged self key"
    proof (cases "map_of (local self) key")
      case (Some v)
      then show ?thesis by (simp add: rr merged_def)
    next
      case None
      with p have "key \<notin> fst ` set (permanent self)" by blast
      then have "map_of (permanent self) key = None" by (simp add: map_of_eq_None_iff)
      with None show ?thesis by (simp add: rr merged_def)
    qed
  qed
qed

text \<open>
  C2. \<^verbatim>\<open>save\<close> followed by \<^verbatim>\<open>load\<close> on the same path is to give the map saved. Saving
  the map with the one key \<^verbatim>\<open>volt.port\<close> where no file exists raises \<^verbatim>\<open>NameError\<close> and
  writes no file, so the load that follows gives the empty map.
\<close>

theorem save_then_load_differs:
  "fst (save Map.empty ''perm.cfg'' [(''volt.port'', ''21212'')]) = Some (NameError ''FileWriter'') \<and>
   load (snd (save Map.empty ''perm.cfg'' [(''volt.port'', ''21212'')])) ''perm.cfg'' = Inr []"
proof -
  have "sort [''volt.port''] = [''volt.port'']" by simp
  then have "fst (save Map.empty ''perm.cfg'' [(''volt.port'', ''21212'')]) =
             Some (NameError ''FileWriter'')"
    by (simp add: save_def add_section_def parser_set_def SafeConfigParser_def
          split_section_def split_name_def lower_def lower_char_def optionxform_def
          match_interpvar_def)
  moreover have "load Map.empty ''perm.cfg'' = Inr []"
    by (simp add: load_def parser_read_def SafeConfigParser_def)
  ultimately show ?thesis by (simp add: save_writes_nothing)
qed

text \<open>
  C7. \<^verbatim>\<open>set_permanent\<close> is to update the permanent map and save the permanent file at
  once. On the files of the example, \<^verbatim>\<open>set_permanent("volt.host", "node1")\<close> updates the
  map and raises \<^verbatim>\<open>NameError\<close>; the permanent file still loads without \<^verbatim>\<open>volt.host\<close>.
\<close>

theorem set_permanent_not_saved:
  "fst (set_permanent cfg0 fs0 ''volt.host'' ''node1'') = Some (NameError ''FileWriter'') \<and>
   permanent (fst (snd (set_permanent cfg0 fs0 ''volt.host'' ''node1''))) =
     [(''volt.port'', ''21212''), (''volt.host'', ''node1'')] \<and>
   load (snd (snd (set_permanent cfg0 fs0 ''volt.host'' ''node1''))) ''perm.cfg'' =
     Inr [(''volt.port'', ''21212'')]"
proof -
  have s: "sort [''volt.port'', ''volt.host''] = [''volt.host'', ''volt.port'']"
    by code_simp
  have "fst (save fs0 ''perm.cfg'' [(''volt.port'', ''21212''), (''volt.host'', ''node1'')]) =
        Some (NameError ''FileWriter'')"
    by (simp add: save_def s add_section_def parser_set_def SafeConfigParser_def
          split_section_def split_name_def lower_def lower_char_def optionxform_def
          match_interpvar_def)
  moreover have "load fs0 ''perm.cfg'' = Inr [(''volt.port'', ''21212'')]"
    by (simp add: load_def parser_read_def SafeConfigParser_def fs0_def items_def
          dict_update_def interpolate_def load_section_def optionxform_def lower_def
          lower_char_def)
  ultimately show ?thesis
    by (simp add: set_permanent_def save_permanent_def cfg0_def Let_def split_beta
          save_writes_nothing)
qed

text \<open>
  The frame of the setters holds on every input: the other tier and every file are as
  before, the tier set holds the new value, and the call ends in an exception.
\<close>

lemma set_permanent_frame:
  "set_permanent self fs key val = (r, self1, fs1) \<Longrightarrow>
   r \<noteq> None \<and> fs1 = fs \<and> local self1 = local self \<and>
   permanent self1 = AList.update key val (permanent self) \<and>
   permanent_path self1 = permanent_path self \<and> local_path self1 = local_path self"
  using save_writes_nothing [of fs "permanent_path self" "AList.update key val (permanent self)"]
        save_raises [of fs "permanent_path self" "AList.update key val (permanent self)"]
  by (auto simp: set_permanent_def save_permanent_def Let_def split: prod.splits)

lemma set_local_frame:
  "set_local self fs key val = (r, self1, fs1) \<Longrightarrow>
   r \<noteq> None \<and> fs1 = fs \<and> permanent self1 = permanent self \<and>
   local self1 = AList.update key val (local self) \<and>
   permanent_path self1 = permanent_path self \<and> local_path self1 = local_path self"
  using save_writes_nothing [of fs "local_path self" "AList.update key val (local self)"]
        save_raises [of fs "local_path self" "AList.update key val (local self)"]
  by (auto simp: set_local_def save_local_def Let_def split: prod.splits)

subsection \<open>What the parser stores\<close>

lemma of_char_lower: "65 \<le> (of_char c :: nat) \<Longrightarrow> (of_char c :: nat) \<le> 90 \<Longrightarrow>
   (of_char (char_of (of_char c + (32 :: nat))) :: nat) = of_char c + 32"
  by (simp add: of_char_of)

lemma lower_char_idem: "lower_char (lower_char c) = lower_char c"
proof (cases "65 \<le> (of_char c :: nat) \<and> (of_char c :: nat) \<le> 90")
  case True
  then have "lower_char c = char_of (of_char c + (32 :: nat))" by (simp add: lower_char_def)
  moreover have "\<not> (of_char (char_of (of_char c + (32 :: nat))) :: nat) \<le> 90"
    using True by (simp add: of_char_lower)
  ultimately show ?thesis by (simp add: lower_char_def)
next
  case False
  then have "lower_char c = c" by (auto simp add: lower_char_def)
  then show ?thesis by simp
qed

lemma lower_idem: "lower (lower s) = lower s"
  by (simp add: lower_def lower_char_idem)

lemma lower_name_entry: "lower ''__name__'' = ''__name__''"
  by (simp add: lower_def lower_char_def)

lemma dropWhile_no_dot: "CHR ''.'' \<notin> set s \<Longrightarrow> dropWhile (\<lambda>c. c \<noteq> CHR ''.'') (s @ CHR ''.'' # n) = CHR ''.'' # n"
  by (induction s) auto

lemma takeWhile_no_dot: "CHR ''.'' \<notin> set s \<Longrightarrow> takeWhile (\<lambda>c. c \<noteq> CHR ''.'') (s @ CHR ''.'' # n) = s"
  by (induction s) auto

lemma split_name_append: "CHR ''.'' \<notin> set s \<Longrightarrow> split_name (s @ ''.'' @ n) = n"
  by (simp add: split_name_def dropWhile_no_dot)

lemma split_section_append: "CHR ''.'' \<notin> set s \<Longrightarrow> split_section (s @ ''.'' @ n) = s"
  by (simp add: split_section_def takeWhile_no_dot)

lemma lower_keys_update: "lower_keys m \<Longrightarrow> lower_keys (AList.update (optionxform n) v m)"
  by (simp add: lower_keys_def dom_update optionxform_def lower_idem)

lemma set_map_entry:
  "x \<in> set (AList.map_entry k f xs) \<Longrightarrow>
   x \<in> set xs \<or> (\<exists>v. (k, v) \<in> set xs \<and> x = (k, f v))"
  by (induction xs) (auto split: if_splits)

lemma lower_parser_defaults:
  "lower_parser H p \<Longrightarrow> lower_parser H (p\<lparr>defaults := AList.update (optionxform n) v (defaults p)\<rparr>)"
  by (simp add: lower_parser_def lower_keys_update)

lemma lower_parser_entry:
  assumes "lower_parser H p"
  shows "lower_parser H (p\<lparr>sections := AList.map_entry s (AList.update (optionxform n) v) (sections p)\<rparr>)"
proof -
  have "fst x \<in> H \<and> lower_keys (snd x)"
    if "x \<in> set (AList.map_entry s (AList.update (optionxform n) v) (sections p))" for x
  proof -
    from set_map_entry [OF that] consider "x \<in> set (sections p)"
      | sd where "(s, sd) \<in> set (sections p)" "x = (s, AList.update (optionxform n) v sd)"
      by blast
    then show ?thesis
    proof cases
      case 1
      with assms show ?thesis by (simp add: lower_parser_def)
    next
      case 2
      with assms have "s \<in> H" "lower_keys sd" by (auto simp: lower_parser_def)
      with 2 show ?thesis by (simp add: lower_keys_update)
    qed
  qed
  with assms show ?thesis by (simp add: lower_parser_def)
qed

lemma lower_parser_header:
  "lower_parser H p \<Longrightarrow> s \<in> H \<Longrightarrow>
   lower_parser H (p\<lparr>sections := sections p @ [(s, [(''__name__'', s)])]\<rparr>)"
  by (simp add: lower_parser_def lower_keys_def lower_name_entry)

lemma read_lines_lower:
  "read_lines ls cur bad p = Inr p' \<Longrightarrow> lower_parser H p \<Longrightarrow> set (headers ls) \<subseteq> H \<Longrightarrow>
   lower_parser H p'"
proof (induction ls cur bad p rule: read_lines.induct)
  case (1 cur bad p)
  then show ?case by (simp split: if_splits)
next
  case (2 s ls cur bad p)
  from "2.prems"(3) have H: "s \<in> H" "set (headers ls) \<subseteq> H" by simp_all
  show ?case
  proof (cases "map_of (sections p) s \<noteq> None")
    case True
    with 2 H show ?thesis by simp
  next
    case False
    show ?thesis
    proof (cases "s = ''DEFAULT''")
      case True
      with False 2 H show ?thesis by simp
    next
      case ndef: False
      with False "2.prems"(1) have
        "read_lines ls (Section s) bad (p\<lparr>sections := sections p @ [(s, [(''__name__'', s)])]\<rparr>) = Inr p'"
        by simp
      from "2.IH"(3) [OF False ndef this lower_parser_header [OF "2.prems"(2) H(1)] H(2)]
      show ?thesis .
    qed
  qed
next
  case (3 n v ls bad p)
  then show ?case by simp
next
  case (4 n v ls bad p)
  from "4.prems" have "read_lines ls DefaultSection bad
      (p\<lparr>defaults := AList.update (optionxform n) v (defaults p)\<rparr>) = Inr p'"
    and "set (headers ls) \<subseteq> H" by simp_all
  from "4.IH" [OF this(1) lower_parser_defaults [OF "4.prems"(2)] this(2)] show ?case .
next
  case (5 n v ls s bad p)
  from "5.prems" have "read_lines ls (Section s) bad
      (p\<lparr>sections := AList.map_entry s (AList.update (optionxform n) v) (sections p)\<rparr>) = Inr p'"
    and "set (headers ls) \<subseteq> H" by simp_all
  from "5.IH" [OF this(1) lower_parser_entry [OF "5.prems"(2)] this(2)] show ?case .
qed simp_all

lemma interpolate_items_keys:
  "interpolate_items d xs = Inr out \<Longrightarrow> map fst out = map fst xs"
  by (induction xs arbitrary: out) (auto split: sum.splits)

lemma fold_update_keys:
  "fst ` set (fold (\<lambda>(k, v). AList.update k v) other d) = fst ` set d \<union> fst ` set other"
proof (induction other arbitrary: d)
  case Nil
  then show ?case by simp
next
  case (Cons x other)
  obtain k v where x: "x = (k, v)" by (cases x)
  have "fst ` set (fold (\<lambda>(k, v). AList.update k v) (x # other) d) =
        fst ` set (AList.update k v d) \<union> fst ` set other"
    using Cons.IH x by simp
  also have "\<dots> = ({k} \<union> fst ` set d) \<union> fst ` set other"
    by (simp only: dom_update)
  finally show ?case using x by auto
qed

lemma dict_update_keys:
  "fst ` set (dict_update d other) = fst ` set d \<union> fst ` set other"
  by (simp add: dict_update_def fold_update_keys)

lemma interpolate_items_lower:
  assumes "interpolate_items d (filter P xs) = Inr its" "lower_keys xs"
  shows "lower_keys its"
proof -
  from interpolate_items_keys [OF assms(1)] have "fst ` set its \<subseteq> fst ` set xs"
    by (metis filter_is_subset image_mono set_map)
  with assms(2) show ?thesis unfolding lower_keys_def by blast
qed

lemma items_lower:
  assumes "items p section = Inr its" "lower_parser H p"
  shows "lower_keys its"
proof (cases "map_of (sections p) section")
  case None
  with assms(1) have
    "interpolate_items (defaults p)
       (filter (\<lambda>(opt, v). opt \<noteq> ''__name__'') (defaults p)) = Inr its"
    by (auto simp: items_def split: if_splits)
  from interpolate_items_lower [OF this] assms(2) show ?thesis
    by (simp add: lower_parser_def)
next
  case (Some sd)
  then have "(section, sd) \<in> set (sections p)" by (rule map_of_SomeD)
  with assms(2) have "lower_keys sd" "lower_keys (defaults p)"
    by (auto simp: lower_parser_def)
  then have l: "lower_keys (dict_update (defaults p) sd)"
    unfolding lower_keys_def dict_update_keys by auto
  from Some assms(1) have
    "interpolate_items (dict_update (defaults p) sd)
       (filter (\<lambda>(opt, v). opt \<noteq> ''__name__'') (dict_update (defaults p) sd)) = Inr its"
    by (simp add: items_def Let_def)
  from interpolate_items_lower [OF this l] show ?thesis .
qed

lemma section_keyI: "lower name = name \<Longrightarrow> section \<in> H \<Longrightarrow> section_key H (section @ ''.'' @ name)"
  unfolding section_key_def using split_name_append by blast

lemma load_section_keys:
  "fst ` set (load_section section its d) =
   fst ` set d \<union> (\<lambda>name. section @ ''.'' @ name) ` fst ` set its"
proof -
  have "fst ` set (fold (\<lambda>(name, val). AList.update (section @ ''.'' @ name) val) its d) =
        fst ` set d \<union> (\<lambda>name. section @ ''.'' @ name) ` fst ` set its"
  proof (induction its arbitrary: d)
    case Nil
    then show ?case by simp
  next
    case (Cons x its)
    obtain n v where x: "x = (n, v)" by (cases x)
    have "fst ` set (fold (\<lambda>(name, val). AList.update (section @ ''.'' @ name) val) (x # its) d) =
          fst ` set (AList.update (section @ ''.'' @ n) v d) \<union>
          (\<lambda>name. section @ ''.'' @ name) ` fst ` set its"
      using Cons.IH x by simp
    also have "\<dots> = ({section @ ''.'' @ n} \<union> fst ` set d) \<union>
          (\<lambda>name. section @ ''.'' @ name) ` fst ` set its"
      by (simp only: dom_update)
    finally show ?case using x by auto
  qed
  then show ?thesis by (simp add: load_section_def)
qed

lemma load_sections_keys:
  "load_sections p secs d = Inr d' \<Longrightarrow> lower_parser H p \<Longrightarrow> set secs \<subseteq> H \<Longrightarrow>
   \<forall>key \<in> fst ` set d. section_key H key \<Longrightarrow> \<forall>key \<in> fst ` set d'. section_key H key"
proof (induction secs arbitrary: d)
  case Nil
  then show ?case by simp
next
  case (Cons sec secs)
  from Cons.prems(1) obtain its where its: "items p sec = Inr its"
    and rest: "load_sections p secs (load_section sec its d) = Inr d'"
    by (auto split: sum.splits)
  from items_lower [OF its Cons.prems(2)] have l: "lower_keys its" .
  from Cons.prems(3) have H: "sec \<in> H" "set secs \<subseteq> H" by simp_all
  have "section_key H key" if "key \<in> fst ` set (load_section sec its d)" for key
  proof -
    from that [unfolded load_section_keys] consider "key \<in> fst ` set d"
      | n where "n \<in> fst ` set its" "key = sec @ ''.'' @ n"
      by blast
    then show ?thesis
    proof cases
      case 1
      with Cons.prems(4) show ?thesis by blast
    next
      case 2
      with l have "lower n = n" unfolding lower_keys_def by blast
      from section_keyI [OF this H(1)] 2(2) show ?thesis by simp
    qed
  qed
  then have "\<forall>key \<in> fst ` set (load_section sec its d). section_key H key" by blast
  from Cons.IH [OF rest Cons.prems(2) H(2) this] show ?case .
qed

lemma parser_read_lower:
  assumes "parser_read SafeConfigParser fs path = Inr p"
  shows "lower_parser (set (file_sections fs path)) p"
proof (cases "fs path")
  case None
  with assms show ?thesis
    by (auto simp: parser_read_def lower_parser_def lower_keys_def SafeConfigParser_def)
next
  case (Some ls)
  with assms have r: "read_lines ls NoSection False SafeConfigParser = Inr p"
    by (simp add: parser_read_def)
  have "lower_parser (set (headers ls)) SafeConfigParser"
    by (simp add: lower_parser_def lower_keys_def SafeConfigParser_def)
  from read_lines_lower [OF r this] Some show ?thesis by (simp add: file_sections_def)
qed

text \<open>
  C10, as the code has it. Every key of the map \<^verbatim>\<open>load(path)\<close> returns is a section
  header of the file, a dot, and an option name in lowercase; where the section name
  holds no dot, that option name is the part of the key after its first dot.
\<close>

theorem load_option_names_lowercase:
  "load fs path = Inr d \<Longrightarrow> key \<in> fst ` set d \<Longrightarrow>
   \<exists>section name. key = section @ ''.'' @ name \<and> lower name = name \<and>
     section \<in> set (file_sections fs path) \<and>
     (CHR ''.'' \<in> set section \<or> split_name key = name)"
proof -
  assume l: "load fs path = Inr d" and k: "key \<in> fst ` set d"
  from l obtain p where p: "parser_read SafeConfigParser fs path = Inr p"
    and s: "load_sections p (map fst (sections p)) [] = Inr d"
    by (auto simp: load_def split: sum.splits)
  let ?H = "set (file_sections fs path)"
  from parser_read_lower [OF p] have lp: "lower_parser ?H p" .
  then have sub: "set (map fst (sections p)) \<subseteq> ?H" by (auto simp: lower_parser_def)
  have "\<forall>key \<in> fst ` set ([] :: config_map). section_key ?H key" by simp
  from load_sections_keys [OF s lp sub this] k have "section_key ?H key" by blast
  then show ?thesis by (simp add: section_key_def)
qed

theorem load_option_names_lowercase_witness:
  "load fs1 ''perm.cfg'' = Inr [(''volt.host'', ''node1'')] \<and>
   ''volt.host'' \<in> fst ` set [(''volt.host'', ''node1'')] \<and>
   lower (split_name ''volt.host'') = split_name ''volt.host''"
proof -
  have ox: "optionxform ''Host'' = ''host''" by code_simp
  have l: "load fs1 ''perm.cfg'' = Inr [(''volt.host'', ''node1'')]"
    by (simp add: load_def parser_read_def SafeConfigParser_def fs1_def items_def
          dict_update_def interpolate_def load_section_def ox)
  have k: "''volt.host'' \<in> fst ` set [(''volt.host'', ''node1'')]" by simp
  from load_option_names_lowercase [OF l k] obtain sec name where
    key: "''volt.host'' = sec @ ''.'' @ name" and low: "lower name = name"
    and sec: "sec \<in> set (file_sections fs1 ''perm.cfg'')"
    and dot: "CHR ''.'' \<in> set sec \<or> split_name ''volt.host'' = name"
    by blast
  from sec have "sec = ''volt''" by (simp add: file_sections_def fs1_def)
  with dot have "split_name ''volt.host'' = name" by simp
  with low l k show ?thesis by simp
qed

text \<open>
  C10 as stated fails on a file whose section name holds a dot and a capital letter: the
  key loaded from the section \<^verbatim>\<open>Volt.DB\<close> is \<^verbatim>\<open>Volt.DB.port\<close>, and its part after the
  first dot, \<^verbatim>\<open>DB.port\<close>, is not in lowercase.
\<close>

theorem load_name_part_not_lowercase:
  "load fs2 ''perm.cfg'' = Inr [(''Volt.DB.port'', ''21212'')] \<and>
   split_name ''Volt.DB.port'' = ''DB.port'' \<and>
   lower (split_name ''Volt.DB.port'') \<noteq> split_name ''Volt.DB.port''"
proof -
  have ox: "optionxform ''Port'' = ''port''" by code_simp
  have lo: "lower ''DB.port'' \<noteq> ''DB.port''" by code_simp
  have sp: "split_name ''Volt.DB.port'' = ''DB.port''" by (simp add: split_name_def)
  have "load fs2 ''perm.cfg'' = Inr [(''Volt.DB.port'', ''21212'')]"
    by (simp add: load_def parser_read_def SafeConfigParser_def fs2_def items_def
          dict_update_def interpolate_def load_section_def ox)
  with lo sp show ?thesis by simp
qed

subsection \<open>The keys save hands to the parser\<close>

lemma between_prefix:
  fixes k :: string
  shows "p @ a \<le> k \<Longrightarrow> k \<le> p @ b \<Longrightarrow> \<exists>c. k = p @ c"
proof (induction p arbitrary: k)
  case Nil
  then show ?case by simp
next
  case (Cons x p)
  from Cons.prems(1) obtain y k' where k: "k = y # k'" by (cases k) auto
  from Cons.prems k have "x = y" "p @ a \<le> k'" "k' \<le> p @ b" by auto
  with Cons.IH k show ?case by auto
qed

lemma key_decompose:
  "CHR ''.'' \<in> set k \<Longrightarrow> \<exists>n. k = split_section k @ ''.'' @ n"
proof -
  assume d: "CHR ''.'' \<in> set k"
  then have "dropWhile (\<lambda>c. c \<noteq> CHR ''.'') k \<noteq> []" by (simp add: dropWhile_eq_Nil_conv)
  then obtain h t where ht: "dropWhile (\<lambda>c. c \<noteq> CHR ''.'') k = h # t"
    by (cases "dropWhile (\<lambda>c. c \<noteq> CHR ''.'') k") auto
  with hd_dropWhile [of "\<lambda>c. c \<noteq> CHR ''.''" k] have "h = CHR ''.''" by auto
  with ht takeWhile_dropWhile_id [of "\<lambda>c. c \<noteq> CHR ''.''" k]
  have "k = split_section k @ ''.'' @ t" by (simp add: split_section_def)
  then show ?thesis ..
qed

lemma split_section_no_dot: "CHR ''.'' \<notin> set (split_section k)"
  unfolding split_section_def by (metis (mono_tags, lifting) set_takeWhileD)

lemma section_between:
  assumes "CHR ''.'' \<in> set k1" "CHR ''.'' \<in> set k3" "k1 \<le> k2" "k2 \<le> k3"
    and "split_section k1 = split_section k3"
  shows "split_section k2 = split_section k1"
proof -
  let ?s = "split_section k1"
  from key_decompose [OF assms(1)] obtain n1 where n1: "k1 = (?s @ ''.'') @ n1" by auto
  from key_decompose [OF assms(2)] assms(5) obtain n3 where n3: "k3 = (?s @ ''.'') @ n3" by auto
  from assms(3) n1 have a: "(?s @ ''.'') @ n1 \<le> k2" by simp
  from assms(4) n3 have b: "k2 \<le> (?s @ ''.'') @ n3" by simp
  from between_prefix [OF a b] obtain c where "k2 = ?s @ ''.'' @ c" by auto
  then have "split_section k2 = split_section (?s @ ''.'' @ c)" by simp
  also have "\<dots> = ?s" by (rule split_section_append [OF split_section_no_dot])
  finally show ?thesis .
qed

lemma add_section_new:
  assumes "lower sec \<noteq> ''default''" "sec \<notin> fst ` set (sections p)"
  shows "add_section p sec = Inr (p\<lparr>sections := sections p @ [(sec, [])]\<rparr>)"
proof -
  from assms(2) have "map_of (sections p) sec = None" by (simp add: map_of_eq_None_iff)
  with assms(1) show ?thesis by (simp add: add_section_def)
qed

lemma parser_set_present:
  assumes "CHR ''%'' \<notin> set (remove_interpvars (remove_percent_pairs val))"
    and "sec \<in> fst ` set (sections p)"
  shows "\<exists>p2. parser_set p sec name val = Inr p2 \<and>
           fst ` set (sections p2) = fst ` set (sections p)"
proof (cases "sec = [] \<or> sec = ''DEFAULT''")
  case True
  with assms(1) show ?thesis by (auto simp: parser_set_def)
next
  case False
  from assms(2) obtain sd where sd: "map_of (sections p) sec = Some sd"
    by (metis map_of_eq_None_iff not_Some_eq)
  let ?p2 = "p\<lparr>sections := AList.update sec (AList.update (optionxform name) val sd) (sections p)\<rparr>"
  from False assms(1) sd have "parser_set p sec name val = Inr ?p2"
    by (simp add: parser_set_def)
  moreover have "fst ` set (sections ?p2) = fst ` set (sections p)"
    using assms(2) by (auto simp: dom_update)
  ultimately show ?thesis by blast
qed

lemma save_keys_step:
  assumes dot: "CHR ''.'' \<in> set k" and acc: "parser_accepts d k"
    and fresh': "cur \<noteq> Some (split_section k) \<longrightarrow>
                 split_section k \<notin> fst ` set (sections p)"
    and same': "cur = Some (split_section k) \<longrightarrow>
                split_section k \<in> fst ` set (sections p)"
  shows "\<exists>p2. save_keys d (k # ks) cur p = save_keys d ks (Some (split_section k)) p2 \<and>
           fst ` set (sections p2) = insert (split_section k) (fst ` set (sections p))"
proof -
  let ?s = "split_section k"
  note fresh = fresh' [rule_format] and same = same' [rule_format]
  from acc obtain val where val: "map_of d k = Some val"
    and ok: "CHR ''%'' \<notin> set (remove_interpvars (remove_percent_pairs val))"
    and nd: "lower ?s \<noteq> ''default''"
    by (auto simp: parser_accepts_def split: option.splits)
  show ?thesis
  proof (cases "cur = Some ?s")
    case True
    from same [OF True] have ins: "insert ?s (fst ` set (sections p)) = fst ` set (sections p)"
      by auto
    from parser_set_present [OF ok same [OF True]] obtain p2 where
      p2: "parser_set p ?s (split_name k) val = Inr p2"
      and k2: "fst ` set (sections p2) = fst ` set (sections p)" by blast
    have "save_keys d (k # ks) cur p = save_keys d ks (Some ?s) p2"
      by (simp only: save_keys.simps dot True val p2 not_True_eq_False not_not
            if_True if_False sum.case option.case simp_thms)
    moreover have "fst ` set (sections p2) = insert ?s (fst ` set (sections p))"
      by (simp only: k2 ins)
    ultimately show ?thesis by (intro exI conjI)
  next
    case False
    let ?p1 = "p\<lparr>sections := sections p @ [(?s, [])]\<rparr>"
    have a: "add_section p ?s = Inr ?p1" by (rule add_section_new [OF nd fresh [OF False]])
    have "?s \<in> fst ` set (sections ?p1)" by simp
    from parser_set_present [OF ok this] obtain p2 where
      p2: "parser_set ?p1 ?s (split_name k) val = Inr p2"
      and k2: "fst ` set (sections p2) = fst ` set (sections ?p1)" by blast
    have "save_keys d (k # ks) cur p = save_keys d ks (Some ?s) p2"
      by (simp only: save_keys.simps dot False a val p2 not_True_eq_False not_not
            if_True if_False sum.case option.case simp_thms)
    moreover have "fst ` set (sections p2) = insert ?s (fst ` set (sections p))"
      unfolding k2 by simp
    ultimately show ?thesis by (intro exI conjI)
  qed
qed

lemma sorted_le_last: "sorted zs \<Longrightarrow> z \<in> set zs \<Longrightarrow> z \<le> last zs"
  by (induction zs) auto

lemma section_fresh:
  assumes "sorted (zs @ [k])" "\<forall>a \<in> set (zs @ [k]). CHR ''.'' \<in> set a"
    and "cur = (if zs = [] then None else Some (split_section (last zs)))"
    and "cur \<noteq> Some (split_section k)"
  shows "split_section k \<notin> split_section ` set zs"
proof
  assume "split_section k \<in> split_section ` set zs"
  then obtain z where z: "z \<in> set zs" "split_section z = split_section k"
    by (auto simp: image_iff)
  then have nz: "zs \<noteq> []" by auto
  then have lz: "last zs \<in> set zs" by simp
  from assms(1) have sz: "sorted zs" and le: "\<forall>a \<in> set zs. a \<le> k"
    by (auto simp: sorted_append)
  from sorted_le_last [OF sz z(1)] have zl: "z \<le> last zs" .
  from le lz have lk: "last zs \<le> k" by simp
  have dz: "CHR ''.'' \<in> set z" using assms(2) z(1) by simp
  have dot: "CHR ''.'' \<in> set k" using assms(2) by simp
  from section_between [OF dz dot zl lk z(2)]
  have "split_section (last zs) = split_section z" .
  with z(2) nz assms(3,4) show False by simp
qed

lemma save_keys_accepted:
  assumes "sorted (zs @ xs)" "\<forall>k \<in> set (zs @ xs). CHR ''.'' \<in> set k"
    and "\<forall>k \<in> set xs. parser_accepts d k"
    and "fst ` set (sections p) = split_section ` set zs"
    and "cur = (if zs = [] then None else Some (split_section (last zs)))"
  shows "\<exists>cur' p'. save_keys d (xs @ ys) cur p = save_keys d ys cur' p' \<and>
           fst ` set (sections p') = split_section ` set (zs @ xs) \<and>
           cur' = (if zs @ xs = [] then None else Some (split_section (last (zs @ xs))))"
  using assms
proof (induction xs arbitrary: zs cur p)
  case Nil
  have "save_keys d ([] @ ys) cur p = save_keys d ys cur p" by simp
  moreover have "fst ` set (sections p) = split_section ` set (zs @ [])"
    using Nil.prems(4) by simp
  moreover have "cur = (if zs @ [] = [] then None else Some (split_section (last (zs @ []))))"
    using Nil.prems(5) by simp
  ultimately show ?case by (intro exI conjI)
next
  case (Cons k xs)
  have dot: "CHR ''.'' \<in> set k" using Cons.prems(2) by simp
  have acc: "parser_accepts d k" using Cons.prems(3) by simp
  have s1: "sorted (zs @ [k])" using Cons.prems(1) by (simp add: sorted_append)
  have d1: "\<forall>a \<in> set (zs @ [k]). CHR ''.'' \<in> set a" using Cons.prems(2) by simp
  have fresh': "cur \<noteq> Some (split_section k) \<longrightarrow>
      split_section k \<notin> fst ` set (sections p)"
    using section_fresh [OF s1 d1 Cons.prems(5)] by (simp only: Cons.prems(4)) blast
  have same': "cur = Some (split_section k) \<longrightarrow>
      split_section k \<in> fst ` set (sections p)"
  proof
    assume eq: "cur = Some (split_section k)"
    with Cons.prems(5) have nz: "zs \<noteq> []" and l: "split_section (last zs) = split_section k"
      by (auto split: if_splits)
    from nz have "last zs \<in> set zs" by simp
    then have "split_section (last zs) \<in> split_section ` set zs" by (rule imageI)
    then show "split_section k \<in> fst ` set (sections p)" by (simp only: Cons.prems(4) l)
  qed
  from save_keys_step [OF dot acc fresh' same', of "xs @ ys"]
  obtain p2 where
    st: "save_keys d (k # (xs @ ys)) cur p = save_keys d (xs @ ys) (Some (split_section k)) p2"
    and ks: "fst ` set (sections p2) = insert (split_section k) (fst ` set (sections p))"
    by (elim exE conjE)
  have 1: "sorted ((zs @ [k]) @ xs)" using Cons.prems(1) by simp
  have 2: "\<forall>a \<in> set ((zs @ [k]) @ xs). CHR ''.'' \<in> set a" using Cons.prems(2) by simp
  have 3: "\<forall>a \<in> set xs. parser_accepts d a" using Cons.prems(3) by simp
  have 4: "fst ` set (sections p2) = split_section ` set (zs @ [k])"
    unfolding ks Cons.prems(4) by simp
  have 5: "Some (split_section k) =
           (if zs @ [k] = [] then None else Some (split_section (last (zs @ [k]))))"
    by simp
  from Cons.IH [OF 1 2 3 4 5] obtain cur' p' where
    r: "save_keys d (xs @ ys) (Some (split_section k)) p2 = save_keys d ys cur' p'"
    and i1: "fst ` set (sections p') = split_section ` set ((zs @ [k]) @ xs)"
    and i2: "cur' = (if (zs @ [k]) @ xs = [] then None
                     else Some (split_section (last ((zs @ [k]) @ xs))))"
    by (elim exE conjE)
  from st r have "save_keys d ((k # xs) @ ys) cur p = save_keys d ys cur' p'"
    by (simp only: append_Cons)
  moreover from i1 have "fst ` set (sections p') = split_section ` set (zs @ k # xs)"
    by simp
  moreover from i2 have
    "cur' = (if zs @ k # xs = [] then None else Some (split_section (last (zs @ k # xs))))"
    by simp
  ultimately show ?case by (intro exI conjI)
qed

lemma save_keys_rejected:
  assumes dot: "CHR ''.'' \<in> set k" and val: "map_of d k = Some val"
    and rej: "\<not> parser_accepts d k"
    and fresh: "cur \<noteq> Some (split_section k) \<longrightarrow>
                split_section k \<notin> fst ` set (sections p)"
    and cur: "cur = Some (split_section k) \<longrightarrow> lower (split_section k) \<noteq> ''default''"
  shows "save_keys d (k # ks) cur p = Inl (ValueError (parser_message d k))"
proof (cases "lower (split_section k) = ''default''")
  case True
  with cur have ne: "cur \<noteq> Some (split_section k)" by blast
  from True have "add_section p (split_section k) = Inl (ValueError (split_section k))"
    by (simp add: add_section_def)
  with dot ne True show ?thesis by (simp add: parser_message_def)
next
  case False
  with rej val have pc: "CHR ''%'' \<in> set (remove_interpvars (remove_percent_pairs val))"
    by (simp add: parser_accepts_def)
  then have ps: "parser_set q (split_section k) (split_name k) val = Inl (ValueError val)" for q
    by (simp add: parser_set_def)
  show ?thesis
  proof (cases "cur = Some (split_section k)")
    case True
    with dot val ps False show ?thesis by (simp add: parser_message_def)
  next
    case ne: False
    with fresh have "split_section k \<notin> fst ` set (sections p)" by blast
    from add_section_new [OF False this] dot ne val ps False show ?thesis
      by (simp add: parser_message_def)
  qed
qed

lemma sorted_split_at:
  fixes key :: string
  shows "sorted ks \<Longrightarrow> key \<in> set ks \<Longrightarrow>
         \<exists>xs rest. ks = xs @ key # rest \<and> (\<forall>x \<in> set xs. x < key)"
proof (induction ks)
  case Nil
  then show ?case by simp
next
  case (Cons a ks)
  show ?case
  proof (cases "a = key")
    case True
    then have "a # ks = [] @ key # ks \<and> (\<forall>x \<in> set []. x < key)" by simp
    then show ?thesis by (intro exI)
  next
    case False
    with Cons.prems have k: "key \<in> set ks" and s: "sorted ks" and "a \<le> key" by auto
    with False have lt: "a < key" by simp
    from Cons.IH [OF s k] obtain xs rest where
      "ks = xs @ key # rest" "\<forall>x \<in> set xs. x < key" by (elim exE conjE)
    with lt have "a # ks = (a # xs) @ key # rest \<and> (\<forall>x \<in> set (a # xs). x < key)" by simp
    then show ?thesis by (intro exI)
  qed
qed

lemma save_result: "\<exists>e. save fs path d = (Some e, fs)"
  by (simp add: save_def split: sum.splits prod.splits)

lemma save_keys_no_dot:
  "CHR ''.'' \<notin> set key \<Longrightarrow> save_keys d (key # rest) cur p = Inl (Abort [key_message key])"
  by simp

lemma save_first_key_without_section:
  assumes "key \<in> fst ` set d" and "CHR ''.'' \<notin> set key"
    and "\<forall>k \<in> fst ` set d. k < key \<longrightarrow> CHR ''.'' \<in> set k \<and> parser_accepts d k"
  shows "save fs path d = (Some (Abort [key_message key]), fs)"
proof -
  let ?ks = "sort (map fst d)"
  have s: "sorted ?ks" by simp
  have m: "set ?ks = fst ` set d" by simp
  with assms(1) have "key \<in> set ?ks" by simp
  from sorted_split_at [OF s this] obtain xs rest where
    ks: "?ks = xs @ key # rest" and lt: "\<forall>x \<in> set xs. x < key"
    by (elim exE conjE)
  from ks m have sub: "set xs \<subseteq> fst ` set d" by auto
  from s ks have 1: "sorted ([] @ xs)" by (simp add: sorted_append)
  have 2: "\<forall>k \<in> set ([] @ xs). CHR ''.'' \<in> set k" using sub lt assms(3) by auto
  have 3: "\<forall>k \<in> set xs. parser_accepts d k" using sub lt assms(3) by auto
  have 4: "fst ` set (sections SafeConfigParser) = split_section ` set []"
    by (simp add: SafeConfigParser_def)
  have 5: "None = (if ([] :: string list) = [] then None else Some (split_section (last [])))"
    by simp
  from save_keys_accepted [OF 1 2 3 4 5, of "key # rest"] obtain cur' p' where
    "save_keys d (xs @ key # rest) None SafeConfigParser = save_keys d (key # rest) cur' p'"
    by (elim exE conjE)
  with save_keys_no_dot [OF assms(2)] have
    "save_keys d ?ks None SafeConfigParser = Inl (Abort [key_message key])"
    by (simp only: ks)
  then show ?thesis by (simp add: save_def)
qed

lemma save_first_rejected:
  assumes "k \<in> fst ` set d" and "CHR ''.'' \<in> set k" and "\<not> parser_accepts d k"
    and "\<forall>k' \<in> fst ` set d. k' < k \<longrightarrow> CHR ''.'' \<in> set k' \<and> parser_accepts d k'"
  shows "save fs path d = (Some (ValueError (parser_message d k)), fs)"
proof -
  let ?ks = "sort (map fst d)"
  have s: "sorted ?ks" by simp
  have m: "set ?ks = fst ` set d" by simp
  with assms(1) have "k \<in> set ?ks" by simp
  from sorted_split_at [OF s this] obtain xs rest where
    ks: "?ks = xs @ k # rest" and lt: "\<forall>x \<in> set xs. x < k"
    by (elim exE conjE)
  from ks m have sub: "set xs \<subseteq> fst ` set d" by auto
  from s ks have 1: "sorted ([] @ xs)" by (simp add: sorted_append)
  have 2: "\<forall>a \<in> set ([] @ xs). CHR ''.'' \<in> set a" using sub lt assms(4) by auto
  have 3: "\<forall>a \<in> set xs. parser_accepts d a" using sub lt assms(4) by auto
  have 4: "fst ` set (sections SafeConfigParser) = split_section ` set []"
    by (simp add: SafeConfigParser_def)
  have 5: "None = (if ([] :: string list) = [] then None else Some (split_section (last [])))"
    by simp
  from save_keys_accepted [OF 1 2 3 4 5, of "k # rest", unfolded append_Nil]
  obtain cur' p' where
    r: "save_keys d (xs @ k # rest) None SafeConfigParser = save_keys d (k # rest) cur' p'"
    and i1: "fst ` set (sections p') = split_section ` set xs"
    and i2: "cur' = (if xs = [] then None else Some (split_section (last xs)))"
    by (elim exE conjE)
  from assms(1) obtain val where val: "map_of d k = Some val"
    by (metis map_of_eq_None_iff not_Some_eq)
  from s ks have s1: "sorted (xs @ [k])" by (simp add: sorted_append)
  have d1: "\<forall>a \<in> set (xs @ [k]). CHR ''.'' \<in> set a" using 2 assms(2) by simp
  have fresh: "cur' \<noteq> Some (split_section k) \<longrightarrow>
      split_section k \<notin> fst ` set (sections p')"
    using section_fresh [OF s1 d1 i2] by (simp only: i1) blast
  have cur: "cur' = Some (split_section k) \<longrightarrow> lower (split_section k) \<noteq> ''default''"
  proof
    assume eq: "cur' = Some (split_section k)"
    with i2 have nz: "xs \<noteq> []" and l: "split_section (last xs) = split_section k"
      by (auto split: if_splits)
    from nz have "last xs \<in> set xs" by simp
    with 3 have "parser_accepts d (last xs)" by blast
    then have "lower (split_section (last xs)) \<noteq> ''default''" by (simp add: parser_accepts_def)
    with l show "lower (split_section k) \<noteq> ''default''" by simp
  qed
  from save_keys_rejected [OF assms(2) val assms(3) fresh cur, of rest] r have
    "save_keys d ?ks None SafeConfigParser = Inl (ValueError (parser_message d k))"
    by (simp only: ks)
  then show ?thesis by (simp add: save_def)
qed

lemma least_rejected:
  fixes key :: string
  assumes "\<exists>k \<in> fst ` set d. k < key \<and> \<not> parser_accepts d k"
  shows "\<exists>k \<in> fst ` set d. k < key \<and> \<not> parser_accepts d k \<and>
           (\<forall>k' \<in> fst ` set d. k' < k \<longrightarrow> parser_accepts d k')"
proof -
  let ?S = "{k \<in> fst ` set d. k < key \<and> \<not> parser_accepts d k}"
  have f: "finite ?S" by simp
  from assms have ne: "?S \<noteq> {}" by blast
  from Min_in [OF f ne] have k: "Min ?S \<in> fst ` set d" "Min ?S < key"
    "\<not> parser_accepts d (Min ?S)" by simp_all
  have "parser_accepts d k'" if "k' \<in> fst ` set d" "k' < Min ?S" for k'
  proof (rule ccontr)
    assume "\<not> parser_accepts d k'"
    with that k(2) have "k' \<in> ?S" by simp
    from Min_le [OF f this] that(2) show False by simp
  qed
  with k show ?thesis by blast
qed

lemma save_parser_rejects:
  assumes "\<forall>k \<in> fst ` set d. k < key \<longrightarrow> CHR ''.'' \<in> set k"
    and "\<exists>k \<in> fst ` set d. k < key \<and> \<not> parser_accepts d k"
  shows "\<exists>k \<in> fst ` set d. k < key \<and> \<not> parser_accepts d k \<and>
           (\<forall>k' \<in> fst ` set d. k' < k \<longrightarrow> parser_accepts d k') \<and>
           save fs path d = (Some (ValueError (parser_message d k)), fs)"
proof -
  from least_rejected [OF assms(2)] obtain k where k: "k \<in> fst ` set d" "k < key"
    "\<not> parser_accepts d k" "\<forall>k' \<in> fst ` set d. k' < k \<longrightarrow> parser_accepts d k'"
    by blast
  from k(1,2) assms(1) have dot: "CHR ''.'' \<in> set k" by blast
  have "\<forall>k' \<in> fst ` set d. k' < k \<longrightarrow> CHR ''.'' \<in> set k' \<and> parser_accepts d k'"
    using k(2,4) assms(1) by (meson order_less_trans)
  from save_first_rejected [OF k(1) dot k(3) this] k show ?thesis by blast
qed

text \<open>
  C4, as the code has it. For a map that holds a key without a dot, \<^verbatim>\<open>save\<close> raises
  an exception and leaves every file as it was. When every key sorted before \<open>key\<close>
  has a dot and is accepted by the parser, so that \<open>key\<close> is the first key without a
  dot, the exception is the abort whose message names \<open>key\<close>. Otherwise, with
  \<open>key\<close> the first key without a dot, the exception is the \<^verbatim>\<open>ValueError\<close> of the
  parser for the first key in sorted order that the parser does not accept.
\<close>

theorem save_key_without_section:
  "key \<in> fst ` set d \<Longrightarrow> CHR ''.'' \<notin> set key \<Longrightarrow>
   (\<exists>e. save fs path d = (Some e, fs)) \<and>
   ((\<forall>k \<in> fst ` set d. k < key \<longrightarrow> CHR ''.'' \<in> set k \<and> parser_accepts d k) \<longrightarrow>
      save fs path d = (Some (Abort [key_message key]), fs)) \<and>
   ((\<forall>k \<in> fst ` set d. k < key \<longrightarrow> CHR ''.'' \<in> set k) \<and>
    (\<exists>k \<in> fst ` set d. k < key \<and> \<not> parser_accepts d k) \<longrightarrow>
      (\<exists>k \<in> fst ` set d. k < key \<and> \<not> parser_accepts d k \<and>
         (\<forall>k' \<in> fst ` set d. k' < k \<longrightarrow> parser_accepts d k') \<and>
         save fs path d = (Some (ValueError (parser_message d k)), fs)))"
proof (intro conjI impI)
  show "\<exists>e. save fs path d = (Some e, fs)" by (rule save_result)
next
  assume "key \<in> fst ` set d" "CHR ''.'' \<notin> set key"
    "\<forall>k \<in> fst ` set d. k < key \<longrightarrow> CHR ''.'' \<in> set k \<and> parser_accepts d k"
  then show "save fs path d = (Some (Abort [key_message key]), fs)"
    by (rule save_first_key_without_section)
next
  assume "(\<forall>k \<in> fst ` set d. k < key \<longrightarrow> CHR ''.'' \<in> set k) \<and>
    (\<exists>k \<in> fst ` set d. k < key \<and> \<not> parser_accepts d k)"
  then show "\<exists>k \<in> fst ` set d. k < key \<and> \<not> parser_accepts d k \<and>
         (\<forall>k' \<in> fst ` set d. k' < k \<longrightarrow> parser_accepts d k') \<and>
         save fs path d = (Some (ValueError (parser_message d k)), fs)"
    using save_parser_rejects by blast
qed

theorem save_key_without_section_witness:
  "save fs0 ''perm.cfg'' map_two = (Some (Abort [key_message ''zone'']), fs0) \<and>
   save fs0 ''perm.cfg'' map_percent = (Some (ValueError ''50%''), fs0)"
proof -
  have k: "''zone'' \<in> fst ` set map_two" by (simp add: map_two_def)
  have n: "CHR ''.'' \<notin> set ''zone''" by simp
  have a: "parser_accepts map_two ''volt.port''" by code_simp
  have h: "\<forall>k \<in> fst ` set map_two. k < ''zone'' \<longrightarrow>
             CHR ''.'' \<in> set k \<and> parser_accepts map_two k"
    using a by (simp add: map_two_def)
  from save_key_without_section [OF k n, of fs0 "''perm.cfg''"] h
  have 1: "save fs0 ''perm.cfg'' map_two = (Some (Abort [key_message ''zone'']), fs0)"
    by blast
  have k2: "''zone'' \<in> fst ` set map_percent" by (simp add: map_percent_def)
  have r: "\<not> parser_accepts map_percent ''volt.load''" by code_simp
  have pm: "parser_message map_percent ''volt.load'' = ''50%''" by code_simp
  have h1: "\<forall>k \<in> fst ` set map_percent. k < ''zone'' \<longrightarrow> CHR ''.'' \<in> set k"
    by (simp add: map_percent_def)
  have h2: "\<exists>k \<in> fst ` set map_percent. k < ''zone'' \<and> \<not> parser_accepts map_percent k"
    using r by (simp add: map_percent_def)
  from save_key_without_section [OF k2 n, of fs0 "''perm.cfg''"] h1 h2
  obtain k' where k': "k' \<in> fst ` set map_percent" "k' < ''zone''"
    and s: "save fs0 ''perm.cfg'' map_percent =
              (Some (ValueError (parser_message map_percent k')), fs0)"
    by blast
  from k' have "k' = ''volt.load''" by (auto simp: map_percent_def)
  with s pm have 2: "save fs0 ''perm.cfg'' map_percent = (Some (ValueError ''50%''), fs0)"
    by simp
  from 1 2 show ?thesis by simp
qed

text \<open>
  C4 as stated fails where the parser raises first: \<^verbatim>\<open>DEFAULT.x\<close> sorts before
  \<^verbatim>\<open>nodot\<close>, and \<^verbatim>\<open>add_section('DEFAULT')\<close> raises \<^verbatim>\<open>ValueError\<close> before the loop
  reaches the key without a dot.
\<close>

theorem save_parser_error_first:
  "CHR ''.'' \<notin> set ''nodot'' \<and> ''nodot'' \<in> fst ` set map_default \<and>
   fst (save fs0 ''perm.cfg'' map_default) = Some (ValueError ''DEFAULT'') \<and>
   fst (save fs0 ''perm.cfg'' map_default) \<noteq> Some (Abort [key_message ''nodot''])"
proof -
  have s: "sort (map fst map_default) = [''DEFAULT.x'', ''nodot'']"
    unfolding map_default_def by code_simp
  have l: "lower ''DEFAULT'' = ''default''" by code_simp
  have "fst (save fs0 ''perm.cfg'' map_default) = Some (ValueError ''DEFAULT'')"
    by (simp add: save_def s add_section_def split_section_def l)
  then show ?thesis by (simp add: map_default_def)
qed

section \<open>Properties of Zipper\<close>

text \<open>
  C9. Every call of \<^verbatim>\<open>add_file\<close> on a Zipper with no exclusion pattern raises the
  unbound-name error for \<^verbatim>\<open>path_in_full\<close>, and adds nothing: the object and the world
  are as before the call.
\<close>

theorem add_file_unbound:
  "re_excludes self = [] \<Longrightarrow>
   add_file g self w path_in path_out = (Some (UnboundLocalError ''path_in_full''), self, w)"
  by (simp add: add_file_def)

theorem add_file_unbound_witness:
  "re_excludes (Zipper_init []) = [] \<and>
   add_file global0 (Zipper_init []) world0 ''a.txt'' ''a.txt'' =
     (Some (UnboundLocalError ''path_in_full''), Zipper_init [], world0)"
proof -
  have h: "re_excludes (Zipper_init []) = []" by (simp add: Zipper_init_def)
  show ?thesis using h add_file_unbound [OF h] by simp
qed

lemma add_file_closed_zip:
  "output_zip self = None \<Longrightarrow> add_file g self w a b = (r, self1, w1) \<Longrightarrow>
   self1 = self \<and> w1 = w\<lparr>console := console w1\<rparr>"
  by (auto simp: add_file_def Zipper_debug_def Let_def split: prod.splits option.splits bool.splits if_splits)

lemma add_string_closed_zip:
  "output_zip self = None \<Longrightarrow> add_string g self w a b = (r, self1, w1) \<Longrightarrow>
   self1 = self \<and> w1 = w\<lparr>console := console w1\<rparr>"
  by (auto simp: add_string_def Zipper_debug_def Let_def split: prod.splits option.splits bool.splits if_splits)

lemma console_twice: "w2 = w\<lparr>console := c\<rparr> \<Longrightarrow> w1 = w2\<lparr>console := c1\<rparr> \<Longrightarrow> w1 = w\<lparr>console := console w1\<rparr>"
  by simp

lemma run_calls_closed_zip:
  "output_zip self = None \<Longrightarrow> run_calls g calls self w = (r, self1, w1) \<Longrightarrow>
   self1 = self \<and> w1 = w\<lparr>console := console w1\<rparr>"
proof (induction calls arbitrary: w)
  case Nil
  then show ?case by simp
next
  case (Cons c calls)
  obtain r2 s2 w2 where st:
    "(case c of AddFile a b \<Rightarrow> add_file g self w a b | AddString a b \<Rightarrow> add_string g self w a b)
       = (r2, s2, w2)"
    by (metis prod_cases3)
  have fr: "s2 = self \<and> w2 = w\<lparr>console := console w2\<rparr>"
    using st add_file_closed_zip [OF Cons.prems(1)] add_string_closed_zip [OF Cons.prems(1)]
    by (cases c) auto
  show ?case
  proof (cases r2)
    case None
    with Cons.prems(2) st fr have "run_calls g calls self w2 = (r, self1, w1)"
      by (cases c) auto
    from Cons.IH [OF Cons.prems(1) this] fr show ?thesis
      using console_twice by blast
  next
    case (Some e)
    with Cons.prems(2) st fr show ?thesis by (cases c) auto
  qed
qed

text \<open>
  The frame of a dry run. With the dry run enabled, \<^verbatim>\<open>open\<close> on a new Zipper raises
  nothing and leaves the world as it is: no archive is created. Whatever calls of
  \<^verbatim>\<open>add_file\<close> and \<^verbatim>\<open>add_string\<close> follow, the archive stays unopened, the manifest
  stays empty and no archive on disk changes; the world differs in the console at most.
  \<^verbatim>\<open>close\<close> then raises nothing and changes nothing. Whether the calls return is
  another matter, settled below.
\<close>

lemma dryrun_no_effect:
  "dryrun_enabled g \<Longrightarrow>
   Zipper_open g (Zipper_init excludes) w path = (r, z, w1) \<Longrightarrow>
   run_calls g calls z w1 = (r2, z2, w2) \<Longrightarrow>
   r = None \<and> w1 = w \<and> output_zip z = None \<and> manifest z = [] \<and>
   output_zip z2 = None \<and> manifest z2 = [] \<and>
   archives w2 = archives w \<and> w2 = w\<lparr>console := console w2\<rparr> \<and>
   Zipper_close g z2 w2 = (None, z2, w2)"
proof -
  assume d: "dryrun_enabled g"
    and o: "Zipper_open g (Zipper_init excludes) w path = (r, z, w1)"
    and c: "run_calls g calls z w1 = (r2, z2, w2)"
  from d o have 1: "r = None" "w1 = w" "output_zip z = None" "manifest z = []"
    by (auto simp: Zipper_open_def Zipper_init_def Let_def)
  from run_calls_closed_zip [OF 1(3) c] have 2: "z2 = z" "w2 = w1\<lparr>console := console w2\<rparr>"
    by auto
  have 3: "archives w2 = archives w"
    using 2(2) 1(2) by (metis world.select_convs(7) world.surjective world.update_convs(8))
  have 4: "Zipper_close g z2 w2 = (None, z2, w2)"
    using 1(3) 2(1) by (simp add: Zipper_close_def)
  from 1 2 3 4 show ?thesis by simp
qed

lemma dryrun_no_effect_witness:
  "dryrun_enabled global_dry \<and>
   (case Zipper_open global_dry (Zipper_init [re_literal ''bak'']) world0 ''out.zip'' of
      (r, z, w1) \<Rightarrow>
        (case run_calls global_dry calls0 z w1 of
           (r2, z2, w2) \<Rightarrow>
             r = None \<and> w1 = world0 \<and> r2 = None \<and> output_zip z2 = None \<and> manifest z2 = [] \<and>
             archives w2 = Map.empty \<and> Zipper_close global_dry z2 w2 = (None, z2, w2)))"
proof -
  have d: "dryrun_enabled global_dry" by (simp add: global_dry_def global0_def)
  obtain r z w1 where
    o: "Zipper_open global_dry (Zipper_init [re_literal ''bak'']) world0 ''out.zip'' = (r, z, w1)"
    by (metis prod_cases3)
  obtain r2 z2 w2 where c: "run_calls global_dry calls0 z w1 = (r2, z2, w2)"
    by (metis prod_cases3)
  have z: "z = (Zipper_init [re_literal ''bak''])\<lparr>output_path := Some ''out.zip''\<rparr>" "w1 = world0"
    using o d by (auto simp: Zipper_open_def Let_def)
  have r2: "r2 = None"
    using c unfolding z calls0_def
    by (simp add: add_file_def add_string_def Zipper_init_def Zipper_debug_def global_dry_def
          global0_def world0_def path_join_def Let_def)
  have a: "archives world0 = Map.empty" by (simp add: world0_def)
  from dryrun_no_effect [OF d o c] d o c r2 a show ?thesis by simp
qed

text \<open>
  C8. Under a dry run every call of \<^verbatim>\<open>add_file\<close> is to do nothing but log. On a
  Zipper with no exclusion pattern, opened with the dry run enabled (which creates no
  archive and changes nothing), the call \<^verbatim>\<open>add_file("a.txt", "a.txt")\<close> does not
  return: it raises the unbound-name error of C9.
\<close>

theorem dryrun_add_file_raises:
  "dryrun_enabled global_dry \<and>
   (case Zipper_open global_dry (Zipper_init []) world0 ''out.zip'' of
      (r, z, w1) \<Rightarrow>
        r = None \<and> w1 = world0 \<and>
        add_file global_dry z w1 ''a.txt'' ''a.txt'' =
          (Some (UnboundLocalError ''path_in_full''), z, w1))"
  by (simp add: global_dry_def global0_def Zipper_open_def Zipper_init_def Let_def add_file_def)

text \<open>
  C6. The manifest written by \<^verbatim>\<open>close\<close> is to list the destination of every file that
  was not excluded. On a Zipper with no exclusion pattern, opened for real, the call
  \<^verbatim>\<open>add_file("a.txt", "a.txt")\<close> raises the unbound-name error of C9; a caller that
  goes on to \<^verbatim>\<open>close\<close> gets an archive whose \<^verbatim>\<open>MANIFEST\<close> is empty.
\<close>

theorem manifest_misses_file:
  "(case Zipper_open global0 (Zipper_init []) world0 ''out.zip'' of
      (r, z1, w1) \<Rightarrow>
        r = None \<and>
        fst (run_calls global0 [AddFile ''a.txt'' ''a.txt''] z1 w1) =
          Some (UnboundLocalError ''path_in_full'') \<and>
        archives (snd (snd (Zipper_close global0 z1 w1))) ''out.zip'' = Some [(''MANIFEST'', [])])"
  by (simp add: Zipper_open_def Zipper_init_def global0_def world0_def Let_def add_file_def
        Zipper_close_def zip_writestr_def)

text \<open>
  C5. \<^verbatim>\<open>add_directory\<close> is to skip every file that a pattern of the constructor or of
  its own list \<^verbatim>\<open>excludes\<close> matches. With the pattern \<^verbatim>\<open>bak\<close> given to the
  constructor and the pattern \<^verbatim>\<open>secret\<close> given to the call, the file
  \<^verbatim>\<open>secret.txt\<close>, which the second pattern matches, is written to the archive and
  listed in the manifest.
\<close>

theorem add_directory_ignores_excludes:
  "re_literal ''secret'' ''secret.txt'' \<and>
   (case Zipper_open global0 (Zipper_init [re_literal ''bak'']) world0 ''out.zip'' of
      (r, z1, w1) \<Rightarrow>
        (case add_directory global0 z1 w1 ''src'' ''dst'' [re_literal ''secret''] of
           (r2, z2, w2) \<Rightarrow>
             r2 = None \<and> manifest z2 = [''dst/secret.txt''] \<and>
             map_option zip_entries (output_zip z2) = Some [(''dst/secret.txt'', ''data'')]))"
  by (simp add: Zipper_open_def Zipper_init_def global0_def world0_def Let_def add_file_def
        add_directory_def path_join_def zip_write_def Zipper_debug_def)

subsection \<open>The manifest of a Zipper that has a pattern\<close>

text \<open>
  With at least one exclusion pattern the loop of \<^verbatim>\<open>add_file\<close> binds
  \<^verbatim>\<open>path_in_full\<close>, and the manifest is complete: when the archive was opened for real
  and no call raised, \<^verbatim>\<open>close\<close> writes, after the entries of the calls, the entry
  \<^verbatim>\<open>MANIFEST\<close> that lists their destinations in call order. A file that a pattern of
  the constructor excludes changes nothing.
\<close>

lemma add_file_loop_result:
  "add_file_loop w res path_in pif =
     (excluded res path_in, if res = [] then pif else Some (realpath w (cwd w) path_in))"
  by (induction res arbitrary: pif) (auto simp: excluded_def)

lemma add_file_excluded:
  "excluded (re_excludes self) path_in \<Longrightarrow>
   add_file g self w path_in path_out = (r, self1, w1) \<Longrightarrow> r = None \<and> self1 = self"
proof -
  assume x: "excluded (re_excludes self) path_in"
    and a: "add_file g self w path_in path_out = (r, self1, w1)"
  from x have ne: "re_excludes self \<noteq> []" by (auto simp: excluded_def)
  with x a show ?thesis by (simp add: add_file_def add_file_loop_result)
qed

lemma add_file_open:
  assumes "re_excludes self \<noteq> []" "output_zip self = Some z"
    and "add_file g self w path_in path_out = (None, self1, w1)"
  shows "re_excludes self1 = re_excludes self \<and>
         manifest self1 = manifest self @ destinations (re_excludes self) [AddFile path_in path_out] \<and>
         (\<exists>z1. output_zip self1 = Some z1 \<and> zip_path z1 = zip_path z \<and>
               zip_closed z1 = zip_closed z \<and>
               map fst (zip_entries z1) =
                 map fst (zip_entries z) @ destinations (re_excludes self) [AddFile path_in path_out])"
  using assms
  by (auto simp: add_file_def add_file_loop_result zip_write_def Let_def
           split: if_splits option.splits sum.splits zip_error.splits)

lemma add_string_open:
  assumes "output_zip self = Some z"
    and "add_string g self w s path_out = (None, self1, w1)"
  shows "re_excludes self1 = re_excludes self \<and>
         manifest self1 = manifest self @ [path_out] \<and>
         (\<exists>z1. output_zip self1 = Some z1 \<and> zip_path z1 = zip_path z \<and>
               zip_closed z1 = zip_closed z \<and>
               map fst (zip_entries z1) = map fst (zip_entries z) @ [path_out])"
  using assms
  by (auto simp: add_string_def zip_writestr_def Let_def
           split: if_splits option.splits sum.splits zip_error.splits)

lemma run_calls_open:
  "re_excludes self \<noteq> [] \<Longrightarrow> output_zip self = Some z \<Longrightarrow>
   run_calls g calls self w = (None, self1, w1) \<Longrightarrow>
   re_excludes self1 = re_excludes self \<and>
   manifest self1 = manifest self @ destinations (re_excludes self) calls \<and>
   (\<exists>z1. output_zip self1 = Some z1 \<and> zip_path z1 = zip_path z \<and>
         zip_closed z1 = zip_closed z \<and>
         map fst (zip_entries z1) = map fst (zip_entries z) @ destinations (re_excludes self) calls)"
proof (induction calls arbitrary: self z w)
  case Nil
  then show ?case by simp
next
  case (Cons c calls)
  show ?case
  proof (cases c)
    case (AddFile path_in path_out)
    with Cons.prems(3) obtain s2 w2 where
      a: "add_file g self w path_in path_out = (None, s2, w2)"
      and r: "run_calls g calls s2 w2 = (None, self1, w1)"
      by (auto split: prod.splits option.splits)
    from add_file_open [OF Cons.prems(1,2) a] obtain z2 where
      e: "re_excludes s2 = re_excludes self"
      and m: "manifest s2 = manifest self @ destinations (re_excludes self) [AddFile path_in path_out]"
      and z2: "output_zip s2 = Some z2" "zip_path z2 = zip_path z" "zip_closed z2 = zip_closed z"
        "map fst (zip_entries z2) =
           map fst (zip_entries z) @ destinations (re_excludes self) [AddFile path_in path_out]"
      by (elim exE conjE)
    from e Cons.prems(1) have ne: "re_excludes s2 \<noteq> []" by simp
    from Cons.IH [OF ne z2(1) r] e m z2 AddFile show ?thesis by auto
  next
    case (AddString s path_out)
    with Cons.prems(3) obtain s2 w2 where
      a: "add_string g self w s path_out = (None, s2, w2)"
      and r: "run_calls g calls s2 w2 = (None, self1, w1)"
      by (auto split: prod.splits option.splits)
    from add_string_open [OF Cons.prems(2) a] obtain z2 where
      e: "re_excludes s2 = re_excludes self"
      and m: "manifest s2 = manifest self @ [path_out]"
      and z2: "output_zip s2 = Some z2" "zip_path z2 = zip_path z" "zip_closed z2 = zip_closed z"
        "map fst (zip_entries z2) = map fst (zip_entries z) @ [path_out]"
      by (elim exE conjE)
    from e Cons.prems(1) have ne: "re_excludes s2 \<noteq> []" by simp
    from Cons.IH [OF ne z2(1) r] e m z2 AddString show ?thesis by auto
  qed
qed

lemma manifest_complete:
  assumes "excludes \<noteq> []"
    and "Zipper_open g (Zipper_init excludes) w path = (None, z0, w0)" "output_zip z0 \<noteq> None"
    and "run_calls g calls z0 w0 = (None, z1, w1)"
  shows "\<exists>z2 w2 es. Zipper_close g z1 w1 = (None, z2, w2) \<and>
           archives w2 path =
             Some (es @ [(manifest_path g, join_lines (destinations excludes calls))]) \<and>
           map fst es = destinations excludes calls"
proof -
  from assms(2,3) obtain z where z: "output_zip z0 = Some z" "zip_path z = path"
      "zip_closed z = False" "zip_entries z = []"
    and e: "re_excludes z0 = excludes" and m: "manifest z0 = []"
    by (auto simp: Zipper_open_def Zipper_init_def Let_def split: if_splits)
  from assms(1) e have ne: "re_excludes z0 \<noteq> []" by simp
  from run_calls_open [OF ne z(1) assms(4)] obtain zz where
    m1: "manifest z1 = manifest z0 @ destinations (re_excludes z0) calls"
    and zz: "output_zip z1 = Some zz" "zip_path zz = zip_path z" "zip_closed zz = zip_closed z"
      "map fst (zip_entries zz) = map fst (zip_entries z) @ destinations (re_excludes z0) calls"
    by (elim exE conjE)
  let ?w2 = "w1\<lparr>archives := (archives w1)(path \<mapsto>
      zip_entries zz @ [(manifest_path g, join_lines (destinations excludes calls))])\<rparr>"
  have "\<exists>z2. Zipper_close g z1 w1 = (None, z2, ?w2)"
    using zz z m1 m e by (simp add: Zipper_close_def zip_writestr_def)
  moreover have "archives ?w2 path =
      Some (zip_entries zz @ [(manifest_path g, join_lines (destinations excludes calls))])"
    by simp
  moreover have "map fst (zip_entries zz) = destinations excludes calls"
    using zz(4) z(4) e by simp
  ultimately show ?thesis by blast
qed

subsection \<open>The calls of a dry run on a Zipper that has a pattern\<close>

text \<open>
  With at least one exclusion pattern and the archive unopened, as a dry run leaves it,
  every sequence of calls of \<^verbatim>\<open>add_file\<close> and \<^verbatim>\<open>add_string\<close> returns without
  an exception.
\<close>

lemma add_file_closed_returns:
  "re_excludes self \<noteq> [] \<Longrightarrow> output_zip self = None \<Longrightarrow>
   fst (add_file g self w path_in path_out) = None"
  by (cases "excluded (re_excludes self) path_in")
     (simp_all add: add_file_def add_file_loop_result Let_def)

lemma add_string_closed_returns:
  "output_zip self = None \<Longrightarrow> fst (add_string g self w s path_out) = None"
  by (simp add: add_string_def Let_def)

lemma dryrun_calls_return:
  "re_excludes self \<noteq> [] \<Longrightarrow> output_zip self = None \<Longrightarrow>
   fst (run_calls g calls self w) = None"
proof (induction calls arbitrary: w)
  case Nil
  then show ?case by simp
next
  case (Cons c calls)
  show ?case
  proof (cases c)
    case (AddFile path_in path_out)
    obtain r s2 w2 where a: "add_file g self w path_in path_out = (r, s2, w2)"
      by (metis prod_cases3)
    from add_file_closed_returns [OF Cons.prems, of g w path_in path_out] a
    have r: "r = None" by simp
    from add_file_closed_zip [OF Cons.prems(2) a] have "s2 = self" by simp
    with a r AddFile Cons.IH [OF Cons.prems, of w2] show ?thesis by simp
  next
    case (AddString s path_out)
    obtain r s2 w2 where a: "add_string g self w s path_out = (r, s2, w2)"
      by (metis prod_cases3)
    from add_string_closed_returns [OF Cons.prems(2), of g w s path_out] a
    have r: "r = None" by simp
    from add_string_closed_zip [OF Cons.prems(2) a] have "s2 = self" by simp
    with a r AddString Cons.IH [OF Cons.prems, of w2] show ?thesis by simp
  qed
qed

end
